theory Spec2Isabelle
  imports Complex_Main "HOL-Library.Word"
begin

section \<open>Python values\<close>

text \<open>
  The broker handles arbitrary Python objects: decoded radio packets are nested
  dictionaries that may hold byte strings, floats, protobuf messages and other objects.
  A float is modelled by its class (nan, the two infinities, finite) and, when finite, by
  the decimal numeral that \<^verbatim>\<open>repr\<close> prints for it: sign, integer part, fraction
  digits, exponent. A \<^verbatim>\<open>str\<close> is a list of characters, a \<^verbatim>\<open>bytes\<close> value a list
  of 8-bit words. Lists, tuples and sets are one constructor: the code treats the three
  alike. A dictionary is the list of its entries in insertion order; its keys are the
  hashable scalars (tuple keys are outside the model).
  A protobuf message carries the name of its class, what \<^verbatim>\<open>MessageToDict\<close> returns
  for it (\<open>None\<close> when that call raises) and its \<^verbatim>\<open>str\<close>; an object with a
  \<^verbatim>\<open>__dict__\<close> carries the name of its class, what \<^verbatim>\<open>vars\<close> returns (\<open>None\<close> when
  the \<^verbatim>\<open>try\<close> around it fails) and its \<^verbatim>\<open>str\<close>; any other object is opaque and
  carries the name of its class.
\<close>

datatype pyfloat = Finite bool nat "nat list" "int option" | NaN | PosInf | NegInf

datatype pykey =
    KNone
  | KBool bool
  | KInt int
  | KFloat pyfloat
  | KStr string
  | KBytes "8 word list"

datatype pyval =
    PNone
  | PBool bool
  | PInt int
  | PFloat pyfloat
  | PStr string
  | PBytes "8 word list"
  | PList "pyval list"
  | PDict "(pykey \<times> pyval) list"
  | PProto string "pyval option" string
  | PObj string "pyval option" string
  | POpaque string

text \<open>Exceptions, each with its message (\<^verbatim>\<open>str(e)\<close>).\<close>

datatype error =
    AttributeError string
  | TypeError string
  | ValueError string
  | OSError string
  | MeshInterfaceError string
  | OtherError string

fun error_str :: "error \<Rightarrow> string" where
  "error_str (AttributeError m) = m"
| "error_str (TypeError m) = m"
| "error_str (ValueError m) = m"
| "error_str (OSError m) = m"
| "error_str (MeshInterfaceError m) = m"
| "error_str (OtherError m) = m"

text \<open>\<^verbatim>\<open>type(v).__name__\<close>\<close>

fun type_name :: "pyval \<Rightarrow> string" where
  "type_name PNone = ''NoneType''"
| "type_name (PBool b) = ''bool''"
| "type_name (PInt n) = ''int''"
| "type_name (PFloat f) = ''float''"
| "type_name (PStr s) = ''str''"
| "type_name (PBytes bs) = ''bytes''"
| "type_name (PList xs) = ''list''"
| "type_name (PDict kvs) = ''dict''"
| "type_name (PProto ty conv r) = ty"
| "type_name (PObj ty vs r) = ty"
| "type_name (POpaque ty) = ty"

text \<open>The \<^verbatim>\<open>AttributeError\<close> of calling \<^verbatim>\<open>.get\<close> on a value that is no dictionary.\<close>

definition no_get :: "pyval \<Rightarrow> error" where
  "no_get v = AttributeError ([CHR 0x27] @ type_name v @ [CHR 0x27] @ '' object has no attribute ''
                               @ [CHR 0x27] @ ''get'' @ [CHR 0x27])"

text \<open>\<^verbatim>\<open>isinstance(v, int)\<close>: a Python \<^verbatim>\<open>bool\<close> is an \<^verbatim>\<open>int\<close>, with value 0 or 1.\<close>

fun int_value :: "pyval \<Rightarrow> int option" where
  "int_value (PInt n) = Some n"
| "int_value (PBool b) = Some (if b then 1 else 0)"
| "int_value _ = None"

definition is_int :: "pyval \<Rightarrow> bool" where
  "is_int v = (int_value v \<noteq> None)"

fun is_dict :: "pyval \<Rightarrow> bool" where
  "is_dict (PDict kvs) = True"
| "is_dict _ = False"

text \<open>
  Looking a \<^verbatim>\<open>str\<close> key up in a dictionary. A \<^verbatim>\<open>str\<close> is equal to no key of
  another type, so only \<open>KStr\<close> entries can match.
\<close>

fun dict_lookup :: "(pykey \<times> 'v) list \<Rightarrow> string \<Rightarrow> 'v option" where
  "dict_lookup [] k = None"
| "dict_lookup ((k', v) # kvs) k = (if k' = KStr k then Some v else dict_lookup kvs k)"

text \<open>\<^verbatim>\<open>d[k] = v\<close> for a \<^verbatim>\<open>str\<close> key: an existing entry keeps its place, a new one goes last.\<close>

fun dict_set :: "(pykey \<times> 'v) list \<Rightarrow> string \<Rightarrow> 'v \<Rightarrow> (pykey \<times> 'v) list" where
  "dict_set [] k v = [(KStr k, v)]"
| "dict_set ((k', v') # kvs) k v =
     (if k' = KStr k then (k', v) # kvs else (k', v') # dict_set kvs k v)"

section \<open>Path access and channel extraction\<close>

text \<open>\<^verbatim>\<open>path.split(".")\<close>\<close>

fun split_on :: "char \<Rightarrow> string \<Rightarrow> string list" where
  "split_on c [] = [[]]"
| "split_on c (x # xs) =
     (if x = c then [] # split_on c xs
      else (case split_on c xs of [] \<Rightarrow> [[x]] | w # ws \<Rightarrow> (x # w) # ws))"

text \<open>
  \<^verbatim>\<open>
  def _get(d, path, default=None):
      cur = d
      for k in path.split("."):
          if not isinstance(cur, dict) or k not in cur:
              return default
          cur = cur[k]
      return cur
  \<close>
\<close>

fun get_loop :: "pyval \<Rightarrow> string list \<Rightarrow> pyval \<Rightarrow> pyval" where
  "get_loop cur [] dflt = cur"
| "get_loop cur (k # ks) dflt =
     (case cur of
        PDict kvs \<Rightarrow>
          (case dict_lookup kvs k of
             None \<Rightarrow> dflt
           | Some v \<Rightarrow> get_loop v ks dflt)
      | _ \<Rightarrow> dflt)"

definition get :: "pyval \<Rightarrow> string \<Rightarrow> pyval \<Rightarrow> pyval" where
  "get d path dflt = get_loop d (split_on CHR ''.'' path) dflt"

definition candidates :: "string list" where
  "candidates =
     [''decoded.header.channelIndex'',
      ''decoded.header.channel_index'',
      ''rxMetadata.channel'',
      ''rx_metadata.channel'',
      ''decoded.channel'',
      ''decoded.channel_index'']"

text \<open>
  \<^verbatim>\<open>
  for path in candidates:
      v = _get(pkt, path)
      if isinstance(v, int):
          return v
  return None
  \<close>
\<close>

fun extract_channel_loop :: "pyval \<Rightarrow> string list \<Rightarrow> pyval" where
  "extract_channel_loop pkt [] = PNone"
| "extract_channel_loop pkt (path # paths) =
     (let v = get pkt path PNone
      in if is_int v then v else extract_channel_loop pkt paths)"

definition extract_channel :: "pyval \<Rightarrow> pyval" where
  "extract_channel pkt = extract_channel_loop pkt candidates"

text \<open>
  The specification's own words for resolving a path: walk nested mappings only; the path
  fails when a segment is missing or the current value is not a mapping.
\<close>

fun spec_resolve :: "pyval \<Rightarrow> string list \<Rightarrow> pyval option" where
  "spec_resolve v [] = Some v"
| "spec_resolve (PDict kvs) (k # ks) =
     (case dict_lookup kvs k of None \<Rightarrow> None | Some v \<Rightarrow> spec_resolve v ks)"
| "spec_resolve _ (k # ks) = None"

text \<open>The six paths of the specification, highest priority first.\<close>

definition spec_paths :: "string list list" where
  "spec_paths =
     [[''decoded'', ''header'', ''channelIndex''],
      [''decoded'', ''header'', ''channel_index''],
      [''rxMetadata'', ''channel''],
      [''rx_metadata'', ''channel''],
      [''decoded'', ''channel''],
      [''decoded'', ''channel_index'']]"

section \<open>The broker's state\<close>

text \<open>
  The module's globals (\<^verbatim>\<open>_clients\<close>, \<^verbatim>\<open>_total_packets\<close>, \<^verbatim>\<open>_by_channel\<close>,
  \<^verbatim>\<open>_interface\<close>, \<^verbatim>\<open>_should_run\<close>, \<^verbatim>\<open>_verbose\<close>, \<^verbatim>\<open>_last_priming\<close>) and the
  world they act on: which sockets have a dead peer, which have been closed, and the
  sequence of calls made so far to \<^verbatim>\<open>sendall\<close>, \<^verbatim>\<open>close\<close> and \<^verbatim>\<open>time.sleep\<close>.
  A socket is identified by a number. Output on the console is not modelled.
\<close>

type_synonym sock = nat

datatype effect = SendAll sock string | Close sock | Sleep real

record broker =
  clients :: "sock list"
  total_packets :: int
  by_channel :: "(pyval \<times> int) list"
  interface :: bool
  should_run :: bool
  verbose :: bool
  last_priming :: real
  broken :: "sock set"
  closed :: "sock set"
  trace :: "effect list"

section \<open>Statistics\<close>

text \<open>
  \<^verbatim>\<open>_by_channel\<close> is a dictionary whose keys are \<^verbatim>\<open>int\<close> objects. Python compares
  such keys by value, so \<^verbatim>\<open>True\<close> and \<^verbatim>\<open>1\<close> are the same key; an entry keeps the key
  object it was created with.
\<close>

fun by_channel_find :: "(pyval \<times> int) list \<Rightarrow> pyval \<Rightarrow> int option" where
  "by_channel_find [] ch = None"
| "by_channel_find ((k, c) # m) ch =
     (if int_value k = int_value ch then Some c else by_channel_find m ch)"

text \<open>\<^verbatim>\<open>_by_channel.get(ch, d)\<close>\<close>

definition by_channel_get :: "(pyval \<times> int) list \<Rightarrow> pyval \<Rightarrow> int \<Rightarrow> int" where
  "by_channel_get m ch d = (case by_channel_find m ch of None \<Rightarrow> d | Some c \<Rightarrow> c)"

text \<open>\<^verbatim>\<open>_by_channel[ch] = v\<close>\<close>

fun by_channel_set :: "(pyval \<times> int) list \<Rightarrow> pyval \<Rightarrow> int \<Rightarrow> (pyval \<times> int) list" where
  "by_channel_set [] ch v = [(ch, v)]"
| "by_channel_set ((k, c) # m) ch v =
     (if int_value k = int_value ch then (k, v) # m else (k, c) # by_channel_set m ch v)"

text \<open>
  \<^verbatim>\<open>
  def _inc_stats_from_packet(pkt: dict) -> None:
      global _total_packets
      ch = pkt.get("meta", {}).get("channelIndex", _extract_channel(pkt))
      with _stats_lock:
          _total_packets += 1
          if isinstance(ch, int):
              _by_channel[ch] = _by_channel.get(ch, 0) + 1
  \<close>
  Only a dictionary has the method \<^verbatim>\<open>get\<close>; on any other value of the model the call
  raises \<^verbatim>\<open>AttributeError\<close>.
\<close>

definition inc_stats_from_packet :: "pyval \<Rightarrow> broker \<Rightarrow> error + broker" where
  "inc_stats_from_packet pkt b =
     (case pkt of
        PDict kvs \<Rightarrow>
          (case (case dict_lookup kvs ''meta'' of None \<Rightarrow> PDict [] | Some m \<Rightarrow> m) of
             PDict meta \<Rightarrow>
               (let ch = (case dict_lookup meta ''channelIndex'' of
                            None \<Rightarrow> extract_channel pkt
                          | Some c \<Rightarrow> c)
                in Inr (b\<lparr>total_packets := total_packets b + 1,
                          by_channel :=
                            (if is_int ch
                             then by_channel_set (by_channel b) ch
                                    (by_channel_get (by_channel b) ch 0 + 1)
                             else by_channel b)\<rparr>))
           | m \<Rightarrow> Inl (no_get m))
      | _ \<Rightarrow> Inl (no_get pkt))"

text \<open>The state at process start.\<close>

definition init_broker :: broker where
  "init_broker =
     \<lparr>clients = [], total_packets = 0, by_channel = [], interface = False,
      should_run = True, verbose = False, last_priming = 0,
      broken = {}, closed = {}, trace = []\<rparr>"

text \<open>
  The channel an event is counted under: the value at \<^verbatim>\<open>meta.channelIndex\<close> when that
  path resolves, otherwise what the extractor returns.
\<close>

definition counted_channel :: "pyval \<Rightarrow> pyval" where
  "counted_channel pkt =
     (case spec_resolve pkt [''meta'', ''channelIndex''] of
        None \<Rightarrow> extract_channel pkt
      | Some c \<Rightarrow> c)"

text \<open>\<^verbatim>\<open>pkt.get("meta", {})\<close> returns a mapping: the key is missing or holds a dictionary.\<close>

definition meta_ok :: "(pykey \<times> pyval) list \<Rightarrow> bool" where
  "meta_ok kvs =
     (case dict_lookup kvs ''meta'' of None \<Rightarrow> True | Some m \<Rightarrow> is_dict m)"

section \<open>Sanitizing and serializing\<close>

text \<open>\<^verbatim>\<open>bytes.hex()\<close>: two lowercase hexadecimal digits for each byte.\<close>

definition hex_digit :: "nat \<Rightarrow> char" where
  "hex_digit n = ''0123456789abcdef'' ! n"

definition hex_byte :: "8 word \<Rightarrow> string" where
  "hex_byte w = [hex_digit (unat w div 16), hex_digit (unat w mod 16)]"

definition hex :: "8 word list \<Rightarrow> string" where
  "hex bs = concat (map hex_byte bs)"

text \<open>The decimal numeral of an integer (\<^verbatim>\<open>int.__repr__\<close>).\<close>

definition digit_char :: "nat \<Rightarrow> char" where
  "digit_char d = ''0123456789'' ! (d mod 10)"

fun digits_nat :: "nat \<Rightarrow> string" where
  "digits_nat n =
     (if n < 10 then [digit_char n] else digits_nat (n div 10) @ [digit_char (n mod 10)])"

declare digits_nat.simps [simp del]

definition int_repr :: "int \<Rightarrow> string" where
  "int_repr i = (if i < 0 then CHR ''-'' # digits_nat (nat (- i)) else digits_nat (nat i))"

text \<open>
  The numeral of a float (\<^verbatim>\<open>float.__repr__\<close>): \<^verbatim>\<open>-12.5\<close>, \<^verbatim>\<open>1.0\<close>, \<^verbatim>\<open>1e+16\<close>,
  \<^verbatim>\<open>1.5e-07\<close>. Without an exponent there is always a fraction; an exponent has a sign
  and at least two digits.
\<close>

fun is_nan :: "pyfloat \<Rightarrow> bool" where
  "is_nan NaN = True"
| "is_nan _ = False"

fun is_inf :: "pyfloat \<Rightarrow> bool" where
  "is_inf PosInf = True"
| "is_inf NegInf = True"
| "is_inf _ = False"

definition exponent_repr :: "int \<Rightarrow> string" where
  "exponent_repr e =
     (if e < 0 then ''-'' else ''+'') @
     (if nat \<bar>e\<bar> < 10 then ''0'' else '''') @ digits_nat (nat \<bar>e\<bar>)"

fun float_repr :: "pyfloat \<Rightarrow> string" where
  "float_repr (Finite neg ip fr ex) =
     (if neg then ''-'' else '''') @ digits_nat ip @
     (case ex of
        None \<Rightarrow> ''.'' @ (if fr = [] then ''0'' else map digit_char fr)
      | Some e \<Rightarrow>
          (if fr = [] then '''' else ''.'' @ map digit_char fr) @ ''e'' @ exponent_repr e)"
| "float_repr NaN = ''nan''"
| "float_repr PosInf = ''inf''"
| "float_repr NegInf = ''-inf''"

text \<open>
  \<^verbatim>\<open>str(_sanitize(k))\<close> for a dictionary key \<open>k\<close>: bytes become their hex string, a
  non-finite float becomes \<^verbatim>\<open>None\<close>, everything else is itself, and \<^verbatim>\<open>str\<close> prints it.
\<close>

fun sanitize_key :: "pykey \<Rightarrow> string" where
  "sanitize_key (KBytes bs) = hex bs"
| "sanitize_key (KFloat f) = (if is_nan f \<or> is_inf f then ''None'' else float_repr f)"
| "sanitize_key KNone = ''None''"
| "sanitize_key (KBool b) = (if b then ''True'' else ''False'')"
| "sanitize_key (KInt n) = int_repr n"
| "sanitize_key (KStr s) = s"

text \<open>
  A dictionary comprehension: the items are stored one after the other, so of two items
  with the same key the later value stays, at the place of the earlier one.
\<close>

fun dict_of_items :: "(string \<times> 'v) list \<Rightarrow> (pykey \<times> 'v) list \<Rightarrow> (pykey \<times> 'v) list" where
  "dict_of_items [] d = d"
| "dict_of_items ((k, v) # items) d = dict_of_items items (dict_set d k v)"

text \<open>
  \<^verbatim>\<open>
  def _sanitize(obj):
      if isinstance(obj, (bytes, bytearray)):
          return obj.hex()
      if _PBMessage and isinstance(obj, _PBMessage):
          try:
              return _sanitize(MessageToDict(obj, preserving_proto_field_name=True))
          except Exception:
              return {"_proto_repr": str(obj)}
      if isinstance(obj, dict):
          return {str(_sanitize(k)): _sanitize(v) for k, v in obj.items()}
      if isinstance(obj, (list, tuple, set)):
          return [_sanitize(x) for x in obj]
      if isinstance(obj, float):
          if math.isnan(obj) or math.isinf(obj):
              return None
          return obj
      if hasattr(obj, "__dict__") and not isinstance(obj, (str, int, float, bool, type(None))):
          try:
              return _sanitize(vars(obj))
          except Exception:
              return str(obj)
      return obj
  \<close>
\<close>

fun sanitize :: "pyval \<Rightarrow> pyval" where
  "sanitize (PBytes bs) = PStr (hex bs)"
| "sanitize (PProto ty conv r) =
     (case conv of
        Some d \<Rightarrow> sanitize d
      | None \<Rightarrow> PDict [(KStr ''_proto_repr'', PStr r)])"
| "sanitize (PDict kvs) =
     PDict (dict_of_items (map (\<lambda>(k, v). (sanitize_key k, sanitize v)) kvs) [])"
| "sanitize (PList xs) = PList (map sanitize xs)"
| "sanitize (PFloat f) = (if is_nan f \<or> is_inf f then PNone else PFloat f)"
| "sanitize (PObj ty vs r) =
     (case vs of
        Some d \<Rightarrow> sanitize d
      | None \<Rightarrow> PStr r)"
| "sanitize v = v"

text \<open>
  \<^verbatim>\<open>json.dumps\<close>. A string is written between quotes; with \<^verbatim>\<open>ensure_ascii=False\<close> only
  the quote, the backslash and the control characters below 0x20 are escaped.
\<close>

definition escape_char :: "char \<Rightarrow> string" where
  "escape_char c =
     (if c = CHR 0x22 then [CHR 0x5C, CHR 0x22]
      else if c = CHR 0x5C then [CHR 0x5C, CHR 0x5C]
      else if c = CHR 0x0A then [CHR 0x5C, CHR ''n'']
      else if c = CHR 0x0D then [CHR 0x5C, CHR ''r'']
      else if c = CHR 0x09 then [CHR 0x5C, CHR ''t'']
      else if c = CHR 0x08 then [CHR 0x5C, CHR ''b'']
      else if c = CHR 0x0C then [CHR 0x5C, CHR ''f'']
      else if (of_char c :: nat) < 0x20
        then [CHR 0x5C, CHR ''u'', CHR ''0'', CHR ''0'',
              hex_digit (of_char c div 16), hex_digit (of_char c mod 16)]
      else [c])"

definition json_string :: "string \<Rightarrow> string" where
  "json_string s = [CHR 0x22] @ concat (map escape_char s) @ [CHR 0x22]"

text \<open>A float is written by its \<^verbatim>\<open>repr\<close>, but for the three that JSON does not have.\<close>

fun json_float :: "pyfloat \<Rightarrow> string" where
  "json_float NaN = ''NaN''"
| "json_float PosInf = ''Infinity''"
| "json_float NegInf = ''-Infinity''"
| "json_float f = float_repr f"

text \<open>The text of a dictionary key, before it is quoted.\<close>

fun json_key :: "pykey \<Rightarrow> error + string" where
  "json_key (KStr s) = Inr s"
| "json_key (KFloat f) = Inr (json_float f)"
| "json_key (KBool b) = Inr (if b then ''true'' else ''false'')"
| "json_key KNone = Inr ''null''"
| "json_key (KInt n) = Inr (int_repr n)"
| "json_key (KBytes bs) = Inl (TypeError ''keys must be str, int, float, bool or None, not bytes'')"

fun join :: "string \<Rightarrow> string list \<Rightarrow> string" where
  "join sep [] = []"
| "join sep [t] = t"
| "join sep (t # u # us) = t @ sep @ join sep (u # us)"

text \<open>The texts of the items, or the first exception raised while encoding them.\<close>

fun collect :: "(error + 'a) list \<Rightarrow> error + 'a list" where
  "collect [] = Inr []"
| "collect (Inl e # rs) = Inl e"
| "collect (Inr t # rs) = (case collect rs of Inl e \<Rightarrow> Inl e | Inr ts \<Rightarrow> Inr (t # ts))"

definition not_serializable :: "pyval \<Rightarrow> error" where
  "not_serializable v = TypeError (''Object of type '' @ type_name v @ '' is not JSON serializable'')"

text \<open>
  The encoder, for the separators \<open>(item_sep, key_sep)\<close>. Lists and tuples are arrays,
  dictionaries are objects, and any value that is none of the JSON types raises
  \<^verbatim>\<open>TypeError\<close>.
\<close>

fun json_encode :: "string \<times> string \<Rightarrow> pyval \<Rightarrow> error + string" where
  "json_encode seps PNone = Inr ''null''"
| "json_encode seps (PBool b) = Inr (if b then ''true'' else ''false'')"
| "json_encode seps (PInt n) = Inr (int_repr n)"
| "json_encode seps (PFloat f) = Inr (json_float f)"
| "json_encode seps (PStr s) = Inr (json_string s)"
| "json_encode seps (PList xs) =
     (case collect (map (json_encode seps) xs) of
        Inl e \<Rightarrow> Inl e
      | Inr ts \<Rightarrow> Inr (''['' @ join (fst seps) ts @ '']''))"
| "json_encode seps (PDict kvs) =
     (case collect (map (\<lambda>(k, v).
               case json_key k of
                 Inl e \<Rightarrow> Inl e
               | Inr ks \<Rightarrow>
                   (case json_encode seps v of
                      Inl e \<Rightarrow> Inl e
                    | Inr t \<Rightarrow> Inr (json_string ks @ snd seps @ t))) kvs) of
        Inl e \<Rightarrow> Inl e
      | Inr ts \<Rightarrow> Inr (''{'' @ join (fst seps) ts @ ''}''))"
| "json_encode seps v = Inl (not_serializable v)"

text \<open>\<^verbatim>\<open>separators=(",", ":")\<close> and the default \<^verbatim>\<open>(", ", ": ")\<close>.\<close>

definition compact_separators :: "string \<times> string" where
  "compact_separators = ('','', '':'')"

definition default_separators :: "string \<times> string" where
  "default_separators = ('', '', '': '')"

text \<open>
  \<^verbatim>\<open>
  def _safe_json_dumps(obj):
      try:
          return json.dumps(_sanitize(obj), ensure_ascii=False, separators=(",", ":"))
      except Exception as e:
          return json.dumps({"type": "status", "msg": f"serialization_error: {e}"},
                            ensure_ascii=False)
  \<close>
  The second \<^verbatim>\<open>json.dumps\<close> stands outside the \<^verbatim>\<open>try\<close>: an exception it raised would
  leave the function.
\<close>

definition safe_json_dumps :: "pyval \<Rightarrow> error + string" where
  "safe_json_dumps obj =
     (case json_encode compact_separators (sanitize obj) of
        Inr line \<Rightarrow> Inr line
      | Inl e \<Rightarrow>
          json_encode default_separators
            (PDict [(KStr ''type'', PStr ''status''),
                    (KStr ''msg'', PStr (''serialization_error: '' @ error_str e))]))"

text \<open>
  Positions in a value: a position is a sequence of list indices and of keys of the
  output mapping. In the input, the item that ends up under an output key is the last one
  whose sanitized key is that key.
\<close>

datatype step = Index nat | Key string

fun last_item :: "(pykey \<times> 'v) list \<Rightarrow> string \<Rightarrow> 'v option" where
  "last_item [] s = None"
| "last_item ((k, v) # kvs) s =
     (case last_item kvs s of
        Some w \<Rightarrow> Some w
      | None \<Rightarrow> if sanitize_key k = s then Some v else None)"

fun input_at :: "pyval \<Rightarrow> step list \<Rightarrow> pyval option" where
  "input_at v [] = Some v"
| "input_at (PList xs) (Index i # p) = (if i < length xs then input_at (xs ! i) p else None)"
| "input_at (PDict kvs) (Key s # p) =
     (case last_item kvs s of None \<Rightarrow> None | Some v \<Rightarrow> input_at v p)"
| "input_at _ _ = None"

fun output_at :: "pyval \<Rightarrow> step list \<Rightarrow> pyval option" where
  "output_at v [] = Some v"
| "output_at (PList xs) (Index i # p) = (if i < length xs then output_at (xs ! i) p else None)"
| "output_at (PDict kvs) (Key s # p) =
     (case dict_lookup kvs s of None \<Rightarrow> None | Some v \<Rightarrow> output_at v p)"
| "output_at _ _ = None"

text \<open>The text of a compact object, from its keys and the texts of its values.\<close>

definition json_object :: "(string \<times> string) list \<Rightarrow> string" where
  "json_object members =
     ''{'' @ join '','' (map (\<lambda>(k, t). json_string k @ '':'' @ t) members) @ ''}''"

text \<open>The values in which no opaque object is left after sanitizing.\<close>

fun serializable :: "pyval \<Rightarrow> bool" where
  "serializable (POpaque ty) = False"
| "serializable (PProto ty conv r) = (case conv of None \<Rightarrow> True | Some d \<Rightarrow> serializable d)"
| "serializable (PObj ty vs r) = (case vs of None \<Rightarrow> True | Some d \<Rightarrow> serializable d)"
| "serializable (PList xs) = (\<forall>x \<in> set xs. serializable x)"
| "serializable (PDict kvs) = (\<forall>(k, v) \<in> set kvs. serializable v)"
| "serializable _ = True"

section \<open>The client registry and the broadcast\<close>

text \<open>
  \<^verbatim>\<open>sock.sendall(data)\<close>: the call is recorded; it raises when the peer is gone or the
  socket has been closed.
\<close>

definition sendall :: "sock \<Rightarrow> string \<Rightarrow> broker \<Rightarrow> error option \<times> broker" where
  "sendall s data b =
     (if s \<in> broken b \<or> s \<in> closed b then Some (OSError ''send failed'') else None,
      b\<lparr>trace := trace b @ [SendAll s data]\<rparr>)"

text \<open>\<^verbatim>\<open>sock.close()\<close>\<close>

definition close_sock :: "sock \<Rightarrow> broker \<Rightarrow> broker" where
  "close_sock s b = b\<lparr>closed := insert s (closed b), trace := trace b @ [Close s]\<rparr>"

text \<open>\<^verbatim>\<open>line.rstrip("\n")\<close>\<close>

definition rstrip_newline :: "string \<Rightarrow> string" where
  "rstrip_newline line = rev (dropWhile (\<lambda>c. c = CHR 0x0A) (rev line))"

text \<open>
  \<^verbatim>\<open>
  def _safe_send_line(sock, line):
      try:
          data = (line.rstrip("\n") + "\n").encode("utf-8", errors="replace")
          sock.sendall(data)
          return True
      except Exception:
          return False
  \<close>
  A string of the model is the sequence of its UTF-8 bytes, so \<^verbatim>\<open>encode\<close> changes
  nothing.
\<close>

definition safe_send_line :: "sock \<Rightarrow> string \<Rightarrow> broker \<Rightarrow> bool \<times> broker" where
  "safe_send_line s line b =
     (case sendall s (rstrip_newline line @ [CHR 0x0A]) b of
        (None, b') \<Rightarrow> (True, b')
      | (Some e, b') \<Rightarrow> (False, b'))"

text \<open>\<^verbatim>\<open>xs.remove(x)\<close> removes the first occurrence, and raises when there is none.\<close>

definition list_remove :: "'a \<Rightarrow> 'a list \<Rightarrow> error + 'a list" where
  "list_remove x xs =
     (if x \<in> set xs then Inr (remove1 x xs)
      else Inl (ValueError ''list.remove(x): x not in list''))"

text \<open>
  \<^verbatim>\<open>
  def _broadcast_json(obj):
      line = _safe_json_dumps(obj)
      drop = []
      with _clients_lock:
          for s in _clients:
              if not _safe_send_line(s, line):
                  drop.append(s)
          for d in drop:
              try:
                  _clients.remove(d)
                  d.close()
              except Exception:
                  pass
  \<close>
\<close>

fun send_pass :: "sock list \<Rightarrow> string \<Rightarrow> sock list \<Rightarrow> broker \<Rightarrow> sock list \<times> broker" where
  "send_pass [] line dropped b = (dropped, b)"
| "send_pass (s # ss) line dropped b =
     (case safe_send_line s line b of
        (ok, b') \<Rightarrow> send_pass ss line (if ok then dropped else dropped @ [s]) b')"

fun drop_pass :: "sock list \<Rightarrow> broker \<Rightarrow> broker" where
  "drop_pass [] b = b"
| "drop_pass (d # ds) b =
     drop_pass ds
       (case list_remove d (clients b) of
          Inl e \<Rightarrow> b
        | Inr cs \<Rightarrow> close_sock d (b\<lparr>clients := cs\<rparr>))"

definition broadcast_json :: "pyval \<Rightarrow> broker \<Rightarrow> error + broker" where
  "broadcast_json obj b =
     (case safe_json_dumps obj of
        Inl e \<Rightarrow> Inl e
      | Inr line \<Rightarrow>
          (case send_pass (clients b) line [] b of
             (dropped, b') \<Rightarrow> Inr (drop_pass dropped b')))"

text \<open>
  \<^verbatim>\<open>BrokerTCPHandler.handle\<close>: the connection is registered and greeted; the handler
  then only reads and discards input; its \<^verbatim>\<open>finally\<close> block unregisters and closes.
  \<^verbatim>\<open>
  with _clients_lock:
      _clients.append(sock)
  _safe_send_line(sock, _safe_json_dumps({"type": "broker_info", "msg": "connected"}))
  ...
  finally:
      with _clients_lock:
          try:
              _clients.remove(sock)
          except ValueError:
              pass
      try:
          sock.close()
      except Exception:
          pass
  \<close>
\<close>

definition register :: "sock \<Rightarrow> broker \<Rightarrow> broker" where
  "register s b = b\<lparr>clients := clients b @ [s]\<rparr>"

definition handle_enter :: "sock \<Rightarrow> broker \<Rightarrow> error + broker" where
  "handle_enter s b =
     (case safe_json_dumps (PDict [(KStr ''type'', PStr ''broker_info''),
                                   (KStr ''msg'', PStr ''connected'')]) of
        Inl e \<Rightarrow> Inl e
      | Inr line \<Rightarrow> Inr (snd (safe_send_line s line (register s b))))"

definition unregister :: "sock \<Rightarrow> broker \<Rightarrow> broker" where
  "unregister s b =
     close_sock s
       (case list_remove s (clients b) of
          Inl e \<Rightarrow> b
        | Inr cs \<Rightarrow> b\<lparr>clients := cs\<rparr>)"

text \<open>A socket whose \<^verbatim>\<open>sendall\<close> fails in state \<open>b\<close>.\<close>

definition send_fails :: "broker \<Rightarrow> sock \<Rightarrow> bool" where
  "send_fails b s = (s \<in> broken b \<or> s \<in> closed b)"

text \<open>
  The registries the broker can hold. The source changes \<^verbatim>\<open>_clients\<close> in three places
  only: the handler appends the socket of a newly accepted connection (a new object,
  equal to no other), and the handler's \<^verbatim>\<open>finally\<close> block and the broadcast remove a
  socket that is there.
\<close>

inductive registry_reachable :: "sock list \<Rightarrow> bool" where
  start: "registry_reachable []"
| append: "registry_reachable cs \<Longrightarrow> s \<notin> set cs \<Longrightarrow> registry_reachable (cs @ [s])"
| remove: "registry_reachable cs \<Longrightarrow> s \<in> set cs \<Longrightarrow> registry_reachable (remove1 s cs)"

section \<open>The event-arrival path\<close>

text \<open>Truth value of an object (\<^verbatim>\<open>x or {}\<close>): empty containers, zero and \<^verbatim>\<open>None\<close> are false.\<close>

fun float_is_zero :: "pyfloat \<Rightarrow> bool" where
  "float_is_zero (Finite neg ip fr ex) = (ip = 0 \<and> list_all (\<lambda>d. d mod 10 = 0) fr)"
| "float_is_zero _ = False"

fun truthy :: "pyval \<Rightarrow> bool" where
  "truthy PNone = False"
| "truthy (PBool b) = b"
| "truthy (PInt n) = (n \<noteq> 0)"
| "truthy (PFloat f) = (\<not> float_is_zero f)"
| "truthy (PStr s) = (s \<noteq> [])"
| "truthy (PBytes bs) = (bs \<noteq> [])"
| "truthy (PList xs) = (xs \<noteq> [])"
| "truthy (PDict kvs) = (kvs \<noteq> [])"
| "truthy _ = True"

definition or_empty_dict :: "pyval \<Rightarrow> pyval" where
  "or_empty_dict v = (if truthy v then v else PDict [])"

text \<open>\<^verbatim>\<open>d.get(k, dflt)\<close>, on any value.\<close>

definition dict_get :: "pyval \<Rightarrow> string \<Rightarrow> pyval \<Rightarrow> error + pyval" where
  "dict_get d k dflt =
     (case d of
        PDict kvs \<Rightarrow> Inr (case dict_lookup kvs k of None \<Rightarrow> dflt | Some v \<Rightarrow> v)
      | _ \<Rightarrow> Inl (no_get d))"

definition bind_err :: "error + 'a \<Rightarrow> ('a \<Rightarrow> error + 'b) \<Rightarrow> error + 'b" where
  "bind_err r f = (case r of Inl e \<Rightarrow> Inl e | Inr x \<Rightarrow> f x)"

text \<open>
  \<^verbatim>\<open>
  def _packet_summary(pkt):
      dec = pkt.get("decoded", {}) or {}
      hdr = dec.get("header", {}) or {}
      data = dec.get("data", {}) or {}
      ch = pkt.get("meta", {}).get("channelIndex", _extract_channel(pkt))
      frm = hdr.get("fromId", ""); to = hdr.get("toId", "")
      port = dec.get("portnum"); txt = data.get("text", None)
      rssi = pkt.get("rssi"); snr = pkt.get("rxSnr")
      ...
  \<close>
  The text it returns is only printed, and is not modelled; what matters to the caller is
  whether one of the \<^verbatim>\<open>get\<close> calls raises.
\<close>

definition packet_summary :: "pyval \<Rightarrow> error + unit" where
  "packet_summary pkt =
     bind_err (dict_get pkt ''decoded'' (PDict [])) (\<lambda>dec0.
     let dec = or_empty_dict dec0 in
     bind_err (dict_get dec ''header'' (PDict [])) (\<lambda>hdr0.
     let hdr = or_empty_dict hdr0 in
     bind_err (dict_get dec ''data'' (PDict [])) (\<lambda>data0.
     let data = or_empty_dict data0 in
     bind_err (dict_get pkt ''meta'' (PDict [])) (\<lambda>meta.
     bind_err (dict_get meta ''channelIndex'' (extract_channel pkt)) (\<lambda>ch.
     bind_err (dict_get hdr ''fromId'' (PStr [])) (\<lambda>frm.
     bind_err (dict_get hdr ''toId'' (PStr [])) (\<lambda>to.
     bind_err (dict_get dec ''portnum'' PNone) (\<lambda>port.
     bind_err (dict_get data ''text'' PNone) (\<lambda>txt.
     bind_err (dict_get pkt ''rssi'' PNone) (\<lambda>rssi.
     bind_err (dict_get pkt ''rxSnr'' PNone) (\<lambda>snr.
     Inr ())))))))))))"

text \<open>
  \<^verbatim>\<open>
  if "meta" not in packet or not isinstance(packet["meta"], dict):
      packet["meta"] = {}
  packet["meta"]["channelIndex"] = ch
  \<close>
\<close>

definition tag_channel :: "(pykey \<times> pyval) list \<Rightarrow> pyval \<Rightarrow> (pykey \<times> pyval) list" where
  "tag_channel kvs ch =
     (let kvs1 = (case dict_lookup kvs ''meta'' of
                    Some (PDict m) \<Rightarrow> kvs
                  | _ \<Rightarrow> dict_set kvs ''meta'' (PDict []));
          meta = (case dict_lookup kvs1 ''meta'' of Some (PDict m) \<Rightarrow> m | _ \<Rightarrow> [])
      in dict_set kvs1 ''meta'' (PDict (dict_set meta ''channelIndex'' ch)))"

text \<open>
  \<^verbatim>\<open>
  def _pubsub_callback(packet, interface):
      try:
          ch = _extract_channel(packet)
          ... (the three lines above)
          _inc_stats_from_packet(packet)
          if _verbose:
              print(_packet_summary(packet), flush=True)
          _broadcast_json({"type": "packet", "packet": packet})
      except Exception as e:
          if _verbose:
              print(f"[broker] error en _pubsub_callback: {e}", flush=True)
  \<close>
  The packet is changed in place, so the function returns it with the new state. On a
  packet that is no dictionary the membership test or the item assignment raises, and the
  handler returns with nothing done.
\<close>

definition pubsub_callback :: "pyval \<Rightarrow> broker \<Rightarrow> pyval \<times> broker" where
  "pubsub_callback packet b =
     (case packet of
        PDict kvs \<Rightarrow>
          (let packet' = PDict (tag_channel kvs (extract_channel packet))
           in case inc_stats_from_packet packet' b of
                Inl e \<Rightarrow> (packet', b)
              | Inr b1 \<Rightarrow>
                  (case (if verbose b1 then packet_summary packet' else Inr ()) of
                     Inl e \<Rightarrow> (packet', b1)
                   | Inr u \<Rightarrow>
                       (case broadcast_json
                               (PDict [(KStr ''type'', PStr ''packet''),
                                       (KStr ''packet'', packet')]) b1 of
                          Inl e \<Rightarrow> (packet', b1)
                        | Inr b2 \<Rightarrow> (packet', b2))))
      | _ \<Rightarrow> (packet, b))"

section \<open>Status events and the ingestion loop\<close>

text \<open>
  \<^verbatim>\<open>
  def _get_stats():
      with _stats_lock:
          return {"total": _total_packets, "by_channel": dict(_by_channel)}
  \<close>
  The keys of \<^verbatim>\<open>_by_channel\<close> are \<^verbatim>\<open>int\<close> objects (\<open>inc_stats_from_packet\<close> stores no
  others).
\<close>

fun int_key :: "pyval \<Rightarrow> pykey" where
  "int_key (PBool b) = KBool b"
| "int_key (PInt n) = KInt n"
| "int_key _ = KNone"

definition by_channel_dict :: "broker \<Rightarrow> pyval" where
  "by_channel_dict b = PDict (map (\<lambda>(k, c). (int_key k, PInt c)) (by_channel b))"

definition get_stats :: "broker \<Rightarrow> pyval" where
  "get_stats b =
     PDict [(KStr ''total'', PInt (total_packets b)), (KStr ''by_channel'', by_channel_dict b)]"

text \<open>The five status objects the loop builds, as it builds them.\<close>

definition status_connected :: "string \<Rightarrow> pyval" where
  "status_connected host =
     PDict [(KStr ''type'', PStr ''status''), (KStr ''msg'', PStr ''connected''),
            (KStr ''host'', PStr host)]"

definition status_heartbeat :: "string \<Rightarrow> pyval \<Rightarrow> pyval" where
  "status_heartbeat host stats =
     PDict [(KStr ''type'', PStr ''status''), (KStr ''msg'', PStr ''heartbeat''),
            (KStr ''host'', PStr host), (KStr ''stats'', stats)]"

definition status_priming :: "string \<Rightarrow> pyval \<Rightarrow> pyval" where
  "status_priming host stats =
     PDict [(KStr ''type'', PStr ''status''), (KStr ''msg'', PStr ''priming''),
            (KStr ''host'', PStr host), (KStr ''stats'', stats)]"

definition status_connect_error :: "error \<Rightarrow> pyval" where
  "status_connect_error e =
     PDict [(KStr ''type'', PStr ''status''),
            (KStr ''msg'', PStr (''connect_error: '' @ error_str e))]"

definition status_unexpected_error :: "error \<Rightarrow> pyval" where
  "status_unexpected_error e =
     PDict [(KStr ''type'', PStr ''status''),
            (KStr ''msg'', PStr (''unexpected_error: '' @ error_str e))]"

text \<open>\<^verbatim>\<open>time.sleep(d)\<close>\<close>

definition sleep :: "real \<Rightarrow> broker \<Rightarrow> broker" where
  "sleep d b = b\<lparr>trace := trace b @ [Sleep d]\<rparr>"

text \<open>
  What one turn of the loop meets in the world: whether the main thread has cleared
  \<^verbatim>\<open>_should_run\<close> by now, what \<^verbatim>\<open>TCPInterface(hostname=host)\<close> and \<^verbatim>\<open>pub.subscribe\<close>
  do when called (return, or raise), and the two readings of the clock.
\<close>

record tick =
  shutdown :: bool
  connect :: "error option"
  subscribe :: "error option"
  now :: real
  now_priming :: real

text \<open>
  \<^verbatim>\<open>
  def _priming_tick(host):
      global _last_priming
      now = time.time()
      if now - _last_priming < 60:
          return
      _last_priming = now
      _broadcast_json({"type": "status", "msg": "priming", "host": host, "stats": _get_stats()})
  \<close>
  An operation that can raise returns the exception, if any, and the state it leaves.
\<close>

definition priming_tick :: "string \<Rightarrow> real \<Rightarrow> broker \<Rightarrow> error option \<times> broker" where
  "priming_tick host t b =
     (if t - last_priming b < 60 then (None, b)
      else (let b1 = b\<lparr>last_priming := t\<rparr>
            in case broadcast_json (status_priming host (get_stats b1)) b1 of
                 Inl e \<Rightarrow> (Some e, b1)
               | Inr b2 \<Rightarrow> (None, b2)))"

text \<open>
  \<^verbatim>\<open>
  with _interface_lock:
      if _interface is None:
          _interface = meshtastic.tcp_interface.TCPInterface(hostname=host)
          pub.subscribe(_pubsub_callback, "meshtastic.receive")
          _broadcast_json({"type": "status", "msg": "connected", "host": host})
  \<close>
\<close>

definition open_interface :: "string \<Rightarrow> tick \<Rightarrow> broker \<Rightarrow> error option \<times> broker" where
  "open_interface host t b =
     (if interface b then (None, b)
      else (case connect t of
              Some e \<Rightarrow> (Some e, b)
            | None \<Rightarrow>
                (let b1 = b\<lparr>interface := True\<rparr>
                 in case subscribe t of
                      Some e \<Rightarrow> (Some e, b1)
                    | None \<Rightarrow>
                        (case broadcast_json (status_connected host) b1 of
                           Inl e \<Rightarrow> (Some e, b1)
                         | Inr b2 \<Rightarrow> (None, b2)))))"

text \<open>
  \<^verbatim>\<open>
  now = time.time()
  if now - last_hb >= 5.0:
      _broadcast_json({"type": "status", "msg": "heartbeat", "host": host, "stats": _get_stats()})
      last_hb = now
  \<close>
\<close>

definition heartbeat :: "string \<Rightarrow> tick \<Rightarrow> real \<Rightarrow> broker \<Rightarrow> error option \<times> real \<times> broker" where
  "heartbeat host t last_hb b =
     (if now t - last_hb \<ge> 5 then
        (case broadcast_json (status_heartbeat host (get_stats b)) b of
           Inl e \<Rightarrow> (Some e, last_hb, b)
         | Inr b1 \<Rightarrow> (None, now t, b1))
      else (None, last_hb, b))"

text \<open>The \<^verbatim>\<open>try\<close> block of the loop: the three steps, then \<^verbatim>\<open>time.sleep(0.5)\<close>.\<close>

definition loop_try :: "string \<Rightarrow> tick \<Rightarrow> real \<Rightarrow> broker \<Rightarrow> error option \<times> real \<times> broker" where
  "loop_try host t last_hb b =
     (case open_interface host t b of
        (Some e, b1) \<Rightarrow> (Some e, last_hb, b1)
      | (None, b1) \<Rightarrow>
          (case heartbeat host t last_hb b1 of
             (Some e, hb, b2) \<Rightarrow> (Some e, hb, b2)
           | (None, hb, b2) \<Rightarrow>
               (case priming_tick host (now_priming t) b2 of
                  (Some e, b3) \<Rightarrow> (Some e, hb, b3)
                | (None, b3) \<Rightarrow> (None, hb, sleep (1 / 2) b3))))"

text \<open>
  \<^verbatim>\<open>
  except MeshInterfaceError as e:
      _broadcast_json({"type": "status", "msg": f"connect_error: {e}"})
      time.sleep(3.0)
  except Exception as e:
      _broadcast_json({"type": "status", "msg": f"unexpected_error: {e}"})
      time.sleep(3.0)
  \<close>
  An exception raised inside a handler would leave the loop: the result is a sum.
\<close>

definition error_status :: "error \<Rightarrow> pyval" where
  "error_status e =
     (case e of
        MeshInterfaceError m \<Rightarrow> status_connect_error e
      | _ \<Rightarrow> status_unexpected_error e)"

definition connect_interface_iteration ::
  "string \<Rightarrow> tick \<Rightarrow> real \<Rightarrow> broker \<Rightarrow> error + real \<times> broker" where
  "connect_interface_iteration host t last_hb b =
     (case loop_try host t last_hb b of
        (None, hb, b1) \<Rightarrow> Inr (hb, b1)
      | (Some e, hb, b1) \<Rightarrow>
          (case broadcast_json (error_status e) b1 of
             Inl e' \<Rightarrow> Inl e'
           | Inr b2 \<Rightarrow> Inr (hb, sleep 3 b2)))"

text \<open>
  \<^verbatim>\<open>while _should_run:\<close> over the turns the world provides. The loop has no end of its
  own; it is run here for as many turns as the list is long.
\<close>

fun connect_interface_loop ::
  "string \<Rightarrow> tick list \<Rightarrow> real \<Rightarrow> broker \<Rightarrow> error + real \<times> broker" where
  "connect_interface_loop host [] last_hb b = Inr (last_hb, b)"
| "connect_interface_loop host (t # ts) last_hb b =
     (let b0 = (if shutdown t then b\<lparr>should_run := False\<rparr> else b)
      in if should_run b0 then
           (case connect_interface_iteration host t last_hb b0 of
              Inl e \<Rightarrow> Inl e
            | Inr (hb, b1) \<Rightarrow> connect_interface_loop host ts hb b1)
         else Inr (last_hb, b0))"

fun is_sleep :: "effect \<Rightarrow> bool" where
  "is_sleep (Sleep d) = True"
| "is_sleep _ = False"

text \<open>The number of calls of \<^verbatim>\<open>time.sleep\<close> made so far; each turn of the loop ends in one.\<close>

definition sleeps :: "broker \<Rightarrow> nat" where
  "sleeps b = length (filter is_sleep (trace b))"

section \<open>JSON texts\<close>

text \<open>
  What it means for a line to parse as JSON: a recognizer for the grammar of RFC 8259,
  written from the grammar and not from the encoder. Every function takes the text that
  is left and returns what remains after the part it accepts, or \<open>None\<close>.
\<close>

definition is_ws :: "char \<Rightarrow> bool" where
  "is_ws c = (c = CHR '' '' \<or> c = CHR 0x09 \<or> c = CHR 0x0A \<or> c = CHR 0x0D)"

definition skip_ws :: "string \<Rightarrow> string" where
  "skip_ws s = dropWhile is_ws s"

definition is_digit :: "char \<Rightarrow> bool" where
  "is_digit c = (c \<in> set ''0123456789'')"

definition is_hex :: "char \<Rightarrow> bool" where
  "is_hex c = (c \<in> set ''0123456789abcdefABCDEF'')"

definition strip_prefix :: "string \<Rightarrow> string \<Rightarrow> string option" where
  "strip_prefix p s = (if take (length p) s = p then Some (drop (length p) s) else None)"

text \<open>
  The characters of a string, after its opening quote and up to its closing quote:
  unescaped characters from 0x20 on, but for the quote and the backslash; the two-character
  escapes; \<^verbatim>\<open>\u\<close> and four hexadecimal digits.
\<close>

fun json_chars :: "string \<Rightarrow> string option" where
  "json_chars [] = None"
| "json_chars (c # cs) =
     (if c = CHR 0x22 then Some cs
      else if c = CHR 0x5C then
        (case cs of
           [] \<Rightarrow> None
         | e # cs1 \<Rightarrow>
             if e \<in> set [CHR 0x22, CHR 0x5C, CHR ''/'', CHR ''b'', CHR ''f'', CHR ''n'',
                          CHR ''r'', CHR ''t'']
             then json_chars cs1
             else if e = CHR ''u'' then
               (case cs1 of
                  h1 # h2 # h3 # h4 # cs2 \<Rightarrow>
                    if is_hex h1 \<and> is_hex h2 \<and> is_hex h3 \<and> is_hex h4
                    then json_chars cs2 else None
                | _ \<Rightarrow> None)
             else None)
      else if (of_char c :: nat) < 0x20 then None
      else json_chars cs)"

text \<open>
  A number: an optional minus, an integer part without leading zeros, an optional
  fraction, an optional exponent.
\<close>

definition json_digits :: "string \<Rightarrow> string option" where
  "json_digits s =
     (case s of
        [] \<Rightarrow> None
      | c # cs \<Rightarrow> if is_digit c then Some (dropWhile is_digit cs) else None)"

definition json_int :: "string \<Rightarrow> string option" where
  "json_int s =
     (case s of
        [] \<Rightarrow> None
      | c # cs \<Rightarrow>
          if c = CHR ''0'' then Some cs
          else if is_digit c then Some (dropWhile is_digit cs)
          else None)"

definition json_frac :: "string \<Rightarrow> string option" where
  "json_frac s =
     (case s of
        [] \<Rightarrow> Some []
      | c # cs \<Rightarrow> if c = CHR ''.'' then json_digits cs else Some s)"

definition json_exp :: "string \<Rightarrow> string option" where
  "json_exp s =
     (case s of
        [] \<Rightarrow> Some []
      | c # cs \<Rightarrow>
          if c = CHR ''e'' \<or> c = CHR ''E'' then
            (case cs of
               [] \<Rightarrow> None
             | d # ds \<Rightarrow> if d = CHR ''+'' \<or> d = CHR ''-'' then json_digits ds else json_digits cs)
          else Some s)"

definition json_number :: "string \<Rightarrow> string option" where
  "json_number s =
     (case json_int (case s of [] \<Rightarrow> [] | c # cs \<Rightarrow> if c = CHR ''-'' then cs else s) of
        None \<Rightarrow> None
      | Some s1 \<Rightarrow> (case json_frac s1 of None \<Rightarrow> None | Some s2 \<Rightarrow> json_exp s2))"

text \<open>
  Values, the elements of an array after its bracket, and the members of an object after
  its brace. The first argument bounds the number of nested calls; a text never needs
  more of them than it has characters.
\<close>

fun json_value :: "nat \<Rightarrow> string \<Rightarrow> string option"
  and json_elements :: "nat \<Rightarrow> string \<Rightarrow> string option"
  and json_members :: "nat \<Rightarrow> string \<Rightarrow> string option" where
  "json_value 0 s = None"
| "json_value (Suc n) s =
     (case skip_ws s of
        [] \<Rightarrow> None
      | c # cs \<Rightarrow>
          if c = CHR ''['' then
            (case skip_ws cs of
               [] \<Rightarrow> None
             | d # ds \<Rightarrow> if d = CHR '']'' then Some ds else json_elements n cs)
          else if c = CHR ''{'' then
            (case skip_ws cs of
               [] \<Rightarrow> None
             | d # ds \<Rightarrow> if d = CHR ''}'' then Some ds else json_members n cs)
          else if c = CHR 0x22 then json_chars cs
          else if c = CHR ''t'' then strip_prefix ''rue'' cs
          else if c = CHR ''f'' then strip_prefix ''alse'' cs
          else if c = CHR ''n'' then strip_prefix ''ull'' cs
          else json_number (c # cs))"
| "json_elements 0 s = None"
| "json_elements (Suc n) s =
     (case json_value n s of
        None \<Rightarrow> None
      | Some r \<Rightarrow>
          (case skip_ws r of
             [] \<Rightarrow> None
           | c # cs \<Rightarrow>
               if c = CHR '','' then json_elements n cs
               else if c = CHR '']'' then Some cs
               else None))"
| "json_members 0 s = None"
| "json_members (Suc n) s =
     (case skip_ws s of
        [] \<Rightarrow> None
      | q # s1 \<Rightarrow>
          if q \<noteq> CHR 0x22 then None
          else
            (case json_chars s1 of
               None \<Rightarrow> None
             | Some s2 \<Rightarrow>
                 (case skip_ws s2 of
                    [] \<Rightarrow> None
                  | c # s3 \<Rightarrow>
                      if c \<noteq> CHR '':'' then None
                      else
                        (case json_value n s3 of
                           None \<Rightarrow> None
                         | Some s4 \<Rightarrow>
                             (case skip_ws s4 of
                                [] \<Rightarrow> None
                              | d # s5 \<Rightarrow>
                                  if d = CHR '','' then json_members n s5
                                  else if d = CHR ''}'' then Some s5
                                  else None)))))"

text \<open>A JSON text is one value, with white space around it and nothing else.\<close>

definition json_valid :: "string \<Rightarrow> bool" where
  "json_valid s =
     (case json_value (Suc (length s)) s of
        None \<Rightarrow> False
      | Some r \<Rightarrow> skip_ws r = [])"

text \<open>The values whose floats are all finite.\<close>

fun finite_floats :: "pyval \<Rightarrow> bool" where
  "finite_floats (PFloat f) = (\<not> is_nan f \<and> \<not> is_inf f)"
| "finite_floats (PList xs) = (\<forall>x \<in> set xs. finite_floats x)"
| "finite_floats (PDict kvs) = (\<forall>(k, v) \<in> set kvs. finite_floats v)"
| "finite_floats _ = True"

text \<open>What may follow a value inside a text, and the first characters of values.\<close>

definition delim :: "string \<Rightarrow> bool" where
  "delim r = (case r of [] \<Rightarrow> True | c # cs \<Rightarrow> c \<in> set '',]}'')"

definition value_start :: "char \<Rightarrow> bool" where
  "value_start c = (c \<in> set ([CHR 0x22] @ ''[{tfn-0123456789''))"

definition value_text :: "string \<Rightarrow> bool" where
  "value_text t =
     (t \<noteq> [] \<and> value_start (hd t) \<and>
      (\<forall>n r. length t \<le> n \<and> delim r \<longrightarrow> json_value n (t @ r) = Some r))"

definition no_digit_ahead :: "string \<Rightarrow> bool" where
  "no_digit_ahead r = (case r of [] \<Rightarrow> True | c # cs \<Rightarrow> \<not> is_digit c)"

definition num_end :: "string \<Rightarrow> bool" where
  "num_end r =
     (case r of
        [] \<Rightarrow> True
      | c # cs \<Rightarrow> \<not> is_digit c \<and> c \<noteq> CHR ''.'' \<and> c \<noteq> CHR ''e'' \<and> c \<noteq> CHR ''E'')"

text \<open>A member of an object: a quoted key, the key separator, a value.\<close>

definition member_text :: "string \<Rightarrow> string \<Rightarrow> bool" where
  "member_text ksep m = (\<exists>k t. m = json_string k @ ksep @ t \<and> value_text t)"

text \<open>Concrete inputs, for the instances of the theorems below.\<close>

definition one_client :: broker where
  "one_client = init_broker\<lparr>clients := [1]\<rparr>"

definition failing_turn :: tick where
  "failing_turn =
     \<lparr>shutdown = False, connect = Some (MeshInterfaceError ''timed out''), subscribe = None,
      now = 0, now_priming = 0\<rparr>"

definition refused_turn :: tick where
  "refused_turn =
     \<lparr>shutdown = False, connect = Some (OtherError ''refused''), subscribe = None,
      now = 0, now_priming = 0\<rparr>"

text \<open>The mapping at \<^verbatim>\<open>meta\<close> before tagging, if there is one.\<close>

definition old_meta :: "(pykey \<times> pyval) list \<Rightarrow> (pykey \<times> pyval) list" where
  "old_meta kvs = (case dict_lookup kvs ''meta'' of Some (PDict m) \<Rightarrow> m | _ \<Rightarrow> [])"

definition example_packet :: "(pykey \<times> pyval) list" where
  "example_packet =
     [(KStr ''decoded'', PDict [(KStr ''header'', PDict [(KStr ''channelIndex'', PInt 3)])]),
      (KStr ''rssi'', PInt (- 80))]"

section \<open>Channel extraction: properties\<close>

lemma split_candidates: "map (split_on CHR ''.'') candidates = spec_paths"
  by (simp add: candidates_def spec_paths_def)

lemma get_loop_spec_resolve:
  "get_loop d ks dflt = (case spec_resolve d ks of None \<Rightarrow> dflt | Some v \<Rightarrow> v)"
proof (induction d ks rule: spec_resolve.induct)
  case (1 v)
  show ?case by simp
next
  case (2 kvs k ks)
  then show ?case by (cases "dict_lookup kvs k") simp_all
qed simp_all

lemma extract_channel_loop_none:
  "\<forall>p \<in> set ps. \<not> is_int (get pkt p PNone) \<Longrightarrow> extract_channel_loop pkt ps = PNone"
  by (induction ps) (simp_all add: Let_def)

lemma get_candidate:
  "p \<in> set candidates \<Longrightarrow>
   get pkt p PNone = (case spec_resolve pkt (split_on CHR ''.'' p) of None \<Rightarrow> PNone | Some v \<Rightarrow> v)"
  by (simp add: get_def get_loop_spec_resolve)

text \<open>
  C2. When the path \<^verbatim>\<open>decoded.header.channelIndex\<close> resolves to an integer (an object
  for which \<^verbatim>\<open>isinstance(v, int)\<close> holds), \<open>extract_channel\<close> returns exactly that
  object, whatever the other five paths hold; when none of the six paths resolves to an
  integer, it returns \<^verbatim>\<open>None\<close>.
\<close>

theorem extract_channel_priority:
  "(spec_resolve e1 [''decoded'', ''header'', ''channelIndex''] = Some v \<and> is_int v
      \<longrightarrow> extract_channel e1 = v) \<and>
   ((\<forall>p \<in> set spec_paths. \<forall>w. spec_resolve e2 p = Some w \<longrightarrow> \<not> is_int w)
      \<longrightarrow> extract_channel e2 = PNone)"
proof (intro conjI impI)
  assume a: "spec_resolve e1 [''decoded'', ''header'', ''channelIndex''] = Some v \<and> is_int v"
  have "get e1 ''decoded.header.channelIndex'' PNone = v"
    using a by (simp add: get_def get_loop_spec_resolve)
  then show "extract_channel e1 = v"
    using a by (simp add: extract_channel_def candidates_def)
next
  assume a: "\<forall>p \<in> set spec_paths. \<forall>w. spec_resolve e2 p = Some w \<longrightarrow> \<not> is_int w"
  have "\<not> is_int (get e2 p PNone)" if p: "p \<in> set candidates" for p
  proof -
    have sp: "split_on CHR ''.'' p \<in> set spec_paths"
      using p split_candidates by (metis image_eqI list.set_map)
    show ?thesis
    proof (cases "spec_resolve e2 (split_on CHR ''.'' p)")
      case None
      then show ?thesis by (simp add: get_candidate [OF p] is_int_def)
    next
      case (Some w)
      with a sp have "\<not> is_int w" by blast
      with Some show ?thesis by (simp add: get_candidate [OF p])
    qed
  qed
  then show "extract_channel e2 = PNone"
    by (simp add: extract_channel_def extract_channel_loop_none)
qed

theorem extract_channel_priority_witness:
  "extract_channel
     (PDict [(KStr ''decoded'',
        PDict [(KStr ''header'', PDict [(KStr ''channelIndex'', PInt 3)]),
               (KStr ''channel'', PInt 7)]),
       (KStr ''rxMetadata'', PDict [(KStr ''channel'', PInt 9)])]) = PInt 3 \<and>
   extract_channel
     (PDict [(KStr ''decoded'', PDict [(KStr ''header'', PStr ''x'')]),
             (KStr ''rxMetadata'', PList [PInt 1])]) = PNone"
  using extract_channel_priority
    [of "PDict [(KStr ''decoded'',
           PDict [(KStr ''header'', PDict [(KStr ''channelIndex'', PInt 3)]),
                  (KStr ''channel'', PInt 7)]),
          (KStr ''rxMetadata'', PDict [(KStr ''channel'', PInt 9)])]"
        "PInt 3"
        "PDict [(KStr ''decoded'', PDict [(KStr ''header'', PStr ''x'')]),
                (KStr ''rxMetadata'', PList [PInt 1])]"]
  by (simp add: spec_paths_def is_int_def)

section \<open>Statistics: properties\<close>

lemma by_channel_find_set_same:
  "by_channel_find (by_channel_set m ch v) ch = Some v"
  by (induction m) auto

lemma by_channel_find_set_other:
  "int_value k \<noteq> int_value ch \<Longrightarrow>
   by_channel_find (by_channel_set m ch v) k = by_channel_find m k"
  by (induction m) auto

lemma by_channel_set_new:
  "by_channel_find m ch = None \<Longrightarrow> by_channel_set m ch v = m @ [(ch, v)]"
  by (induction m) (auto split: if_splits)

lemma by_channel_find_cong:
  "int_value k = int_value k' \<Longrightarrow> by_channel_find m k = by_channel_find m k'"
  by (induction m) auto

lemma inc_stats_from_packet_eq:
  assumes "meta_ok kvs"
  shows "inc_stats_from_packet (PDict kvs) b =
         Inr (b\<lparr>total_packets := total_packets b + 1,
                by_channel :=
                  (if is_int (counted_channel (PDict kvs))
                   then by_channel_set (by_channel b) (counted_channel (PDict kvs))
                          (by_channel_get (by_channel b) (counted_channel (PDict kvs)) 0 + 1)
                   else by_channel b)\<rparr>)"
proof (cases "dict_lookup kvs ''meta''")
  case None
  then show ?thesis
    by (simp add: inc_stats_from_packet_def counted_channel_def Let_def)
next
  case (Some m)
  with assms obtain meta where m: "m = PDict meta"
    by (cases m) (simp_all add: meta_ok_def)
  show ?thesis
    by (cases "dict_lookup meta ''channelIndex''")
       (simp_all add: inc_stats_from_packet_def counted_channel_def Some m Let_def)
qed

text \<open>
  What the function does on every event whose \<^verbatim>\<open>meta\<close> is missing or a mapping: it adds
  exactly 1 to the total; when the counted channel is an integer \<open>c\<close> it adds exactly 1 to
  the entry of \<open>c\<close> (a missing entry counts as 0) and leaves every other entry as it was;
  when it is not an integer, the per-channel table is unchanged.
\<close>

lemma inc_stats_from_packet_counts:
  assumes "meta_ok kvs"
  shows "\<exists>b'. inc_stats_from_packet (PDict kvs) b = Inr b' \<and>
           total_packets b' = total_packets b + 1 \<and>
           (is_int (counted_channel (PDict kvs)) \<longrightarrow>
              by_channel_find (by_channel b') (counted_channel (PDict kvs)) =
                Some (by_channel_get (by_channel b) (counted_channel (PDict kvs)) 0 + 1) \<and>
              (\<forall>k. int_value k \<noteq> int_value (counted_channel (PDict kvs)) \<longrightarrow>
                 by_channel_find (by_channel b') k = by_channel_find (by_channel b) k)) \<and>
           (\<not> is_int (counted_channel (PDict kvs)) \<longrightarrow> by_channel b' = by_channel b)"
  by (simp add: inc_stats_from_packet_eq [OF assms] by_channel_find_set_same
        by_channel_find_set_other)

text \<open>
  C3. The specification, and the docstring of \<^verbatim>\<open>_inc_stats_from_packet\<close> ("usando el
  mismo extractor robusto"), say that the channel an event is counted under is the one
  the extractor derives, and that an event with no resolvable channel changes no
  per-channel entry. The function itself reads \<^verbatim>\<open>meta.channelIndex\<close> first and falls back
  on the extractor only when that key is missing. Called on the event
  \<^verbatim>\<open>{"meta": {"channelIndex": 5}}\<close>, for which the extractor returns \<^verbatim>\<open>None\<close>, it
  creates the entry of channel 5; called on an event whose
  \<^verbatim>\<open>decoded.header.channelIndex\<close> is 3 and whose \<^verbatim>\<open>meta.channelIndex\<close> is 5, it counts
  the event under 5 and not under 3.
\<close>

theorem inc_stats_from_packet_prefers_meta:
  "extract_channel (PDict [(KStr ''meta'', PDict [(KStr ''channelIndex'', PInt 5)])]) = PNone \<and>
   inc_stats_from_packet
     (PDict [(KStr ''meta'', PDict [(KStr ''channelIndex'', PInt 5)])]) init_broker =
   Inr (init_broker\<lparr>total_packets := 1, by_channel := [(PInt 5, 1)]\<rparr>) \<and>
   by_channel init_broker = [] \<and>
   extract_channel
     (PDict [(KStr ''decoded'', PDict [(KStr ''header'', PDict [(KStr ''channelIndex'', PInt 3)])]),
             (KStr ''meta'', PDict [(KStr ''channelIndex'', PInt 5)])]) = PInt 3 \<and>
   inc_stats_from_packet
     (PDict [(KStr ''decoded'', PDict [(KStr ''header'', PDict [(KStr ''channelIndex'', PInt 3)])]),
             (KStr ''meta'', PDict [(KStr ''channelIndex'', PInt 5)])]) init_broker =
   Inr (init_broker\<lparr>total_packets := 1, by_channel := [(PInt 5, 1)]\<rparr>)"
  by (simp add: inc_stats_from_packet_def extract_channel_def candidates_def get_def
        is_int_def by_channel_get_def init_broker_def)

text \<open>
  C10. A \<^verbatim>\<open>bool\<close> passes \<^verbatim>\<open>isinstance(v, int)\<close>. For an event whose
  \<^verbatim>\<open>decoded.header.channelIndex\<close> is \<^verbatim>\<open>True\<close>, \<open>extract_channel\<close> returns \<^verbatim>\<open>True\<close>,
  not \<^verbatim>\<open>None\<close>; its value as a channel is 1. Counting such an event (whose
  \<^verbatim>\<open>meta.channelIndex\<close> is missing, or is the tag the extractor gave) in a table that has
  no entry for channel 1 creates an entry whose key is the boolean.
\<close>

theorem extract_channel_accepts_bool:
  assumes "spec_resolve (PDict kvs) [''decoded'', ''header'', ''channelIndex''] = Some (PBool True)"
    and "meta_ok kvs"
    and "spec_resolve (PDict kvs) [''meta'', ''channelIndex''] \<in> {None, Some (PBool True)}"
    and "by_channel_find (by_channel b) (PInt 1) = None"
  shows "extract_channel (PDict kvs) = PBool True \<and>
         int_value (extract_channel (PDict kvs)) = Some 1 \<and>
         inc_stats_from_packet (PDict kvs) b =
           Inr (b\<lparr>total_packets := total_packets b + 1,
                  by_channel := by_channel b @ [(PBool True, 1)]\<rparr>)"
proof -
  have "get (PDict kvs) ''decoded.header.channelIndex'' PNone = PBool True"
    using assms(1) by (simp add: get_def get_loop_spec_resolve)
  then have e: "extract_channel (PDict kvs) = PBool True"
    by (simp add: extract_channel_def candidates_def is_int_def)
  have c: "counted_channel (PDict kvs) = PBool True"
    using assms(3) e by (auto simp: counted_channel_def)
  have f: "by_channel_find (by_channel b) (PBool True) = None"
    using assms(4) by_channel_find_cong [of "PBool True" "PInt 1" "by_channel b"] by simp
  show ?thesis
    using e c f
    by (simp add: inc_stats_from_packet_eq [OF assms(2)] is_int_def by_channel_get_def
          by_channel_set_new)
qed

theorem extract_channel_accepts_bool_witness:
  "extract_channel
     (PDict [(KStr ''decoded'',
        PDict [(KStr ''header'', PDict [(KStr ''channelIndex'', PBool True)])])]) = PBool True \<and>
   inc_stats_from_packet
     (PDict [(KStr ''decoded'',
        PDict [(KStr ''header'', PDict [(KStr ''channelIndex'', PBool True)])])]) init_broker =
   Inr (init_broker\<lparr>total_packets := 1, by_channel := [(PBool True, 1)]\<rparr>)"
  using extract_channel_accepts_bool
    [of "[(KStr ''decoded'',
           PDict [(KStr ''header'', PDict [(KStr ''channelIndex'', PBool True)])])]"
        init_broker]
  by (simp add: meta_ok_def init_broker_def)

section \<open>Sanitizer: properties\<close>

lemma dict_lookup_set: "dict_lookup (dict_set d k v) s = (if s = k then Some v else dict_lookup d s)"
  by (induction d) auto

lemma dict_lookup_of_items:
  "dict_lookup (dict_of_items items d) s =
     (case map_of (rev items) s of None \<Rightarrow> dict_lookup d s | Some v \<Rightarrow> Some v)"
  by (induction items arbitrary: d) (auto simp: dict_lookup_set split: option.splits)

lemma map_of_rev_items:
  "map_of (rev (map (\<lambda>(k, v). (sanitize_key k, f v)) kvs)) s = map_option f (last_item kvs s)"
  by (induction kvs) (auto simp: map_add_def split: option.splits)

lemma dict_lookup_sanitize:
  "dict_lookup (dict_of_items (map (\<lambda>(k, v). (sanitize_key k, sanitize v)) kvs) []) s =
     map_option sanitize (last_item kvs s)"
  by (simp add: dict_lookup_of_items map_of_rev_items split: option.splits)

lemma length_hex: "length (hex bs) = 2 * length bs"
  by (induction bs) (simp_all add: hex_def hex_byte_def)

lemma hex_digit_lower: "n < 16 \<Longrightarrow> hex_digit n \<in> set ''0123456789abcdef''"
  unfolding hex_digit_def by (rule nth_mem) simp

lemma hex_byte_chars: "c \<in> set (hex_byte w) \<Longrightarrow> c \<in> set ''0123456789abcdef''"
proof -
  assume c: "c \<in> set (hex_byte w)"
  have "unat w < 2 ^ 8" using unsigned_less [of w] by simp
  then have "unat w div 16 < 16" and "unat w mod 16 < 16" by simp_all
  then have "hex_digit (unat w div 16) \<in> set ''0123456789abcdef''"
    and "hex_digit (unat w mod 16) \<in> set ''0123456789abcdef''"
    by (simp_all only: hex_digit_lower)
  with c show ?thesis unfolding hex_byte_def by auto
qed

lemma hex_chars: "c \<in> set (hex bs) \<Longrightarrow> c \<in> set ''0123456789abcdef''"
proof -
  assume "c \<in> set (hex bs)"
  then obtain w where "c \<in> set (hex_byte w)"
    by (auto simp: hex_def)
  then show ?thesis by (rule hex_byte_chars)
qed

lemma sanitize_at:
  "input_at v p = Some (PBytes bs) \<Longrightarrow> output_at (sanitize v) p = Some (PStr (hex bs))"
proof (induction v p rule: input_at.induct)
  case (1 v)
  then show ?case by simp
next
  case (2 xs i p)
  then show ?case by (simp split: if_splits)
next
  case (3 kvs s p)
  then show ?case by (auto simp: dict_lookup_sanitize split: option.splits)
qed simp_all


text \<open>
  C9. Wherever a byte string of length \<open>N\<close> stands in the input (at the top, in a list,
  tuple or set, or as a value of a mapping, at any depth), \<open>sanitize\<close> puts its hex
  string at that position: a string of length \<open>2 * N\<close> of lowercase hexadecimal digits.
\<close>

theorem sanitize_bytes_hex:
  "input_at v p = Some (PBytes bs) \<Longrightarrow>
   output_at (sanitize v) p = Some (PStr (hex bs)) \<and>
   length (hex bs) = 2 * length bs \<and>
   (\<forall>c \<in> set (hex bs). c \<in> set ''0123456789abcdef'')"
  using sanitize_at length_hex hex_chars by blast

theorem sanitize_bytes_hex_witness:
  "output_at
     (sanitize (PDict [(KStr ''payload'', PList [PInt 1, PBytes [0x00, 0xff, 0x1a]])]))
     [Key ''payload'', Index 1] = Some (PStr ''00ff1a'') \<and>
   length ''00ff1a'' = 2 * length [0x00, 0xff, 0x1a :: 8 word]"
  using sanitize_bytes_hex
    [of "PDict [(KStr ''payload'', PList [PInt 1, PBytes [0x00, 0xff, 0x1a]])]"
        "[Key ''payload'', Index 1]" "[0x00, 0xff, 0x1a]"]
  by (simp add: hex_def hex_byte_def hex_digit_def)

section \<open>Broadcast and registry: properties\<close>

lemma fallback_encodes:
  "json_encode default_separators
     (PDict [(KStr ''type'', PStr ''status''), (KStr ''msg'', PStr m)]) =
   Inr (''{'' @ json_string ''type'' @ '': '' @ json_string ''status'' @ '', '' @
        json_string ''msg'' @ '': '' @ json_string m @ ''}'')"
  by (simp add: default_separators_def)

lemma safe_json_dumps_total: "\<exists>line. safe_json_dumps obj = Inr line"
  by (cases "json_encode compact_separators (sanitize obj)")
     (simp_all add: safe_json_dumps_def fallback_encodes)

lemma send_fails_trace [simp]: "send_fails (b\<lparr>trace := t\<rparr>) = send_fails b"
  by (simp add: send_fails_def fun_eq_iff)

lemma send_pass_eq:
  "send_pass cs line dr b =
     (dr @ filter (send_fails b) cs,
      b\<lparr>trace := trace b @ map (\<lambda>s. SendAll s (rstrip_newline line @ [CHR 0x0A])) cs\<rparr>)"
proof (induction cs arbitrary: dr b)
  case Nil
  show ?case by simp
next
  case (Cons s ss)
  show ?case
    by (simp add: safe_send_line_def sendall_def Cons.IH) (simp add: send_fails_def)
qed

lemma filter_remove1_first:
  "filter F cs = d # ds \<Longrightarrow>
   d \<in> set cs \<and> filter F (remove1 d cs) = ds \<and>
   filter (\<lambda>s. \<not> F s) (remove1 d cs) = filter (\<lambda>s. \<not> F s) cs"
proof (induction cs)
  case Nil
  then show ?case by simp
next
  case (Cons x xs)
  show ?case
  proof (cases "F x")
    case True
    with Cons.prems show ?thesis by simp
  next
    case False
    with Cons.prems have p: "filter F xs = d # ds" by simp
    then have "d \<in> set (filter F xs)" by simp
    then have "F d" by simp
    with False have "x \<noteq> d" by blast
    with False Cons.IH [OF p] show ?thesis by simp
  qed
qed

lemma drop_pass_eq:
  "ds = filter F (clients b) \<Longrightarrow>
   drop_pass ds b =
     b\<lparr>clients := filter (\<lambda>s. \<not> F s) (clients b),
       closed := closed b \<union> set ds,
       trace := trace b @ map Close ds\<rparr>"
proof (induction ds arbitrary: b)
  case Nil
  then have "filter (\<lambda>s. \<not> F s) (clients b) = clients b"
    by (metis (mono_tags, lifting) filter_True filter_empty_conv)
  then show ?case by simp
next
  case (Cons d ds)
  from filter_remove1_first [OF Cons.prems [symmetric]]
  have d: "d \<in> set (clients b)"
    and f: "filter F (remove1 d (clients b)) = ds"
    and g: "filter (\<lambda>s. \<not> F s) (remove1 d (clients b)) = filter (\<lambda>s. \<not> F s) (clients b)"
    by simp_all
  let ?b = "close_sock d (b\<lparr>clients := remove1 d (clients b)\<rparr>)"
  have "ds = filter F (clients ?b)"
    using f by (simp add: close_sock_def)
  from Cons.IH [OF this] show ?case
    using d g by (simp add: list_remove_def close_sock_def)
qed

lemma rstrip_newline_end:
  "rstrip_newline line = [] \<or> last (rstrip_newline line) \<noteq> CHR 0x0A"
proof (cases "dropWhile (\<lambda>c. c = CHR 0x0A) (rev line)")
  case Nil
  then show ?thesis by (simp add: rstrip_newline_def)
next
  case (Cons c cs)
  then have "c \<noteq> CHR 0x0A"
    by (metis (mono_tags, lifting) hd_dropWhile list.discI list.sel(1))
  with Cons show ?thesis by (simp add: rstrip_newline_def)
qed

lemma broadcast_json_eq:
  "safe_json_dumps obj = Inr line \<Longrightarrow>
   broadcast_json obj b =
     Inr (b\<lparr>clients := filter (\<lambda>s. \<not> send_fails b s) (clients b),
           closed := closed b \<union> set (filter (send_fails b) (clients b)),
           trace := trace b
             @ map (\<lambda>s. SendAll s (rstrip_newline line @ [CHR 0x0A])) (clients b)
             @ map Close (filter (send_fails b) (clients b))\<rparr>)"
  by (simp add: broadcast_json_def send_pass_eq drop_pass_eq [where F = "send_fails b"])


text \<open>
  C4. A broadcast serializes the object once and calls \<^verbatim>\<open>sendall\<close> on every
  connection registered at call time, in order, with the same bytes: the line without
  trailing newlines, followed by one newline. Only after the last of these calls are the
  connections whose call failed removed from the registry and closed; those and no others
  are removed.
\<close>

theorem broadcast_json_sends_all:
  "\<exists>line data.
     safe_json_dumps obj = Inr line \<and>
     data = rstrip_newline line @ [CHR 0x0A] \<and>
     takeWhile (\<lambda>c. c = CHR 0x0A) (rev data) = [CHR 0x0A] \<and>
     broadcast_json obj b =
       Inr (b\<lparr>clients := filter (\<lambda>s. \<not> send_fails b s) (clients b),
             closed := closed b \<union> set (filter (send_fails b) (clients b)),
             trace := trace b
               @ map (\<lambda>s. SendAll s data) (clients b)
               @ map Close (filter (send_fails b) (clients b))\<rparr>)"
proof -
  obtain line where line: "safe_json_dumps obj = Inr line"
    using safe_json_dumps_total by blast
  have "takeWhile (\<lambda>c. c = CHR 0x0A) (rev (rstrip_newline line @ [CHR 0x0A])) = [CHR 0x0A]"
    using rstrip_newline_end [of line]
    by (cases "rstrip_newline line" rule: rev_cases) auto
  with line broadcast_json_eq [OF line, of b] show ?thesis by blast
qed

theorem broadcast_json_sends_all_witness:
  "broadcast_json (PInt 7) (init_broker\<lparr>clients := [1, 2, 3], broken := {2}\<rparr>) =
   Inr (init_broker\<lparr>clients := [1, 3], broken := {2}, closed := {2},
          trace := [SendAll 1 [CHR ''7'', CHR 0x0A], SendAll 2 [CHR ''7'', CHR 0x0A],
                    SendAll 3 [CHR ''7'', CHR 0x0A], Close 2]\<rparr>)"
  using broadcast_json_sends_all [of "PInt 7" "init_broker\<lparr>clients := [1, 2, 3], broken := {2}\<rparr>"]
  by (auto simp: safe_json_dumps_def compact_separators_def int_repr_def digits_nat.simps
        digit_char_def rstrip_newline_def send_fails_def init_broker_def)

lemma registry_reachable_distinct: "registry_reachable cs \<Longrightarrow> distinct cs"
  by (induction rule: registry_reachable.induct) simp_all

lemma distinct_registry_reachable: "distinct cs \<Longrightarrow> registry_reachable cs"
proof (induction cs rule: rev_induct)
  case Nil
  show ?case by (rule registry_reachable.start)
next
  case (snoc s cs)
  then show ?case by (simp add: registry_reachable.append)
qed

lemma registry_reachable_iff: "registry_reachable cs \<longleftrightarrow> distinct cs"
  using registry_reachable_distinct distinct_registry_reachable by blast

lemma registry_reachable_register:
  "registry_reachable (clients b) \<Longrightarrow> s \<notin> set (clients b) \<Longrightarrow>
   registry_reachable (clients (register s b))"
  by (simp add: register_def registry_reachable.append)

lemma registry_reachable_unregister:
  "registry_reachable (clients b) \<Longrightarrow> registry_reachable (clients (unregister s b))"
  by (simp add: registry_reachable_iff unregister_def close_sock_def list_remove_def)

lemma registry_reachable_broadcast_json:
  "registry_reachable (clients b) \<Longrightarrow> broadcast_json obj b = Inr b' \<Longrightarrow>
   registry_reachable (clients b')"
  using safe_json_dumps_total [of obj] by (auto simp: registry_reachable_iff broadcast_json_eq)

lemma unregister_absent: "s \<notin> set (clients b) \<Longrightarrow> clients (unregister s b) = clients b"
  by (simp add: unregister_def close_sock_def list_remove_def)

text \<open>
  C5. Unregistering is idempotent, in every registry the broker can hold. After one
  \<open>unregister\<close> the connection is gone from the registry; in the second one
  \<^verbatim>\<open>remove\<close> raises \<^verbatim>\<open>ValueError\<close>, which is caught, and the registry, the closed
  sockets and everything else stay as they were: only a second call of \<^verbatim>\<open>close\<close> is made.
\<close>

theorem unregister_idempotent:
  assumes "registry_reachable (clients b)"
  shows "s \<notin> set (clients (unregister s b)) \<and>
         list_remove s (clients (unregister s b)) =
           Inl (ValueError ''list.remove(x): x not in list'') \<and>
         clients (unregister s (unregister s b)) = clients (unregister s b) \<and>
         unregister s (unregister s b) =
           (unregister s b)\<lparr>trace := trace (unregister s b) @ [Close s]\<rparr>"
proof -
  from assms have "distinct (clients b)" by (rule registry_reachable_distinct)
  then have a: "s \<notin> set (clients (unregister s b))"
    by (simp add: unregister_def close_sock_def list_remove_def)
  then show ?thesis
    by (simp add: unregister_def [of s "unregister s b"] close_sock_def list_remove_def)
       (simp add: unregister_def close_sock_def)
qed

theorem unregister_idempotent_witness:
  "registry_reachable (clients (init_broker\<lparr>clients := [1, 2, 3]\<rparr>)) \<and>
   clients (unregister 2 (init_broker\<lparr>clients := [1, 2, 3]\<rparr>)) = [1, 3] \<and>
   clients (unregister 2 (unregister 2 (init_broker\<lparr>clients := [1, 2, 3]\<rparr>))) = [1, 3]"
proof -
  have r: "registry_reachable (clients (init_broker\<lparr>clients := [1, 2, 3]\<rparr>))"
    by (simp add: registry_reachable_iff)
  have "clients (unregister 2 (init_broker\<lparr>clients := [1, 2, 3]\<rparr>)) = [1, 3]"
    by (simp add: unregister_def close_sock_def list_remove_def init_broker_def)
  with unregister_idempotent [OF r, of 2] r show ?thesis by simp
qed

section \<open>The ingestion loop: properties\<close>

lemma error_line:
  "safe_json_dumps (PDict [(KStr ''type'', PStr ''status''), (KStr ''msg'', PStr m)]) =
   Inr (json_object [(''type'', json_string ''status''), (''msg'', json_string m)])"
  by (simp add: safe_json_dumps_def compact_separators_def json_object_def)

lemma error_status_line:
  "safe_json_dumps (error_status e) =
   Inr (json_object
          [(''type'', json_string ''status''),
           (''msg'', json_string ((case e of MeshInterfaceError m \<Rightarrow> ''connect_error: ''
                                   | _ \<Rightarrow> ''unexpected_error: '') @ error_str e))])"
  by (cases e)
     (simp_all only: error_status_def status_connect_error_def status_unexpected_error_def
        error_line error.case)

lemma broadcast_json_keeps:
  "\<exists>b'. broadcast_json obj b = Inr b' \<and> should_run b' = should_run b \<and>
        sleeps b' = sleeps b \<and> interface b' = interface b"
proof -
  obtain line where "safe_json_dumps obj = Inr line"
    using safe_json_dumps_total by blast
  then show ?thesis
    by (simp add: broadcast_json_eq sleeps_def)
qed

lemma priming_tick_keeps:
  "\<exists>b'. priming_tick host t b = (None, b') \<and> should_run b' = should_run b \<and> sleeps b' = sleeps b"
proof (cases "t - last_priming b < 60")
  case True
  then show ?thesis by (simp add: priming_tick_def)
next
  case False
  obtain b' where "broadcast_json (status_priming host (get_stats (b\<lparr>last_priming := t\<rparr>)))
      (b\<lparr>last_priming := t\<rparr>) = Inr b'"
    and "should_run b' = should_run (b\<lparr>last_priming := t\<rparr>)"
    and "sleeps b' = sleeps (b\<lparr>last_priming := t\<rparr>)"
    using broadcast_json_keeps by blast
  with False show ?thesis by (simp add: priming_tick_def sleeps_def)
qed

lemma heartbeat_keeps:
  "\<exists>hb' b'. heartbeat host t hb b = (None, hb', b') \<and> should_run b' = should_run b \<and>
     sleeps b' = sleeps b"
proof (cases "now t - hb \<ge> 5")
  case True
  obtain b' where "broadcast_json (status_heartbeat host (get_stats b)) b = Inr b'"
    and "should_run b' = should_run b" and "sleeps b' = sleeps b"
    using broadcast_json_keeps by blast
  with True show ?thesis by (simp add: heartbeat_def)
next
  case False
  then show ?thesis by (simp add: heartbeat_def)
qed

lemma open_interface_keeps:
  "\<exists>r b'. open_interface host t b = (r, b') \<and> should_run b' = should_run b \<and>
     sleeps b' = sleeps b"
proof -
  obtain b' where "broadcast_json (status_connected host) (b\<lparr>interface := True\<rparr>) = Inr b'"
    and "should_run b' = should_run (b\<lparr>interface := True\<rparr>)"
    and "sleeps b' = sleeps (b\<lparr>interface := True\<rparr>)"
    using broadcast_json_keeps by blast
  then show ?thesis
    by (auto simp: open_interface_def sleeps_def Let_def split: option.splits)
qed

lemma open_interface_raises:
  "open_interface host t b = (Some e, b1) \<Longrightarrow>
   \<not> interface b \<and>
   (connect t = Some e \<and> b1 = b \<or>
    connect t = None \<and> subscribe t = Some e \<and> b1 = b\<lparr>interface := True\<rparr>)"
proof -
  assume a: "open_interface host t b = (Some e, b1)"
  obtain b' where "broadcast_json (status_connected host) (b\<lparr>interface := True\<rparr>) = Inr b'"
    using broadcast_json_keeps by blast
  with a show ?thesis
    by (auto simp: open_interface_def Let_def split: option.splits if_splits)
qed

lemma loop_try_keeps:
  "\<exists>r hb' b'. loop_try host t hb b = (r, hb', b') \<and> should_run b' = should_run b \<and>
     sleeps b' = sleeps b + (if r = None then 1 else 0)"
proof -
  obtain r1 b1 where o: "open_interface host t b = (r1, b1)"
    and o1: "should_run b1 = should_run b" "sleeps b1 = sleeps b"
    using open_interface_keeps by blast
  obtain hb2 b2 where h: "heartbeat host t hb b1 = (None, hb2, b2)"
    and h1: "should_run b2 = should_run b1" "sleeps b2 = sleeps b1"
    using heartbeat_keeps by blast
  obtain b3 where p: "priming_tick host (now_priming t) b2 = (None, b3)"
    and p1: "should_run b3 = should_run b2" "sleeps b3 = sleeps b2"
    using priming_tick_keeps by blast
  show ?thesis
  proof (cases r1)
    case None
    with o o1 h h1 p p1 show ?thesis
      by (simp add: loop_try_def sleep_def sleeps_def)
  next
    case (Some e)
    with o o1 show ?thesis by (simp add: loop_try_def)
  qed
qed

lemma loop_try_raises:
  assumes "loop_try host t hb b = (Some e, hb1, b1)"
  shows "hb1 = hb \<and> \<not> interface b \<and>
         (connect t = Some e \<and> b1 = b \<or>
          connect t = None \<and> subscribe t = Some e \<and> b1 = b\<lparr>interface := True\<rparr>)"
proof -
  obtain r1 b1' where o: "open_interface host t b = (r1, b1')"
    by (cases "open_interface host t b") auto
  obtain hb2 b2 where h: "heartbeat host t hb b1' = (None, hb2, b2)"
    using heartbeat_keeps by blast
  obtain b3 where p: "priming_tick host (now_priming t) b2 = (None, b3)"
    using priming_tick_keeps by blast
  show ?thesis
  proof (cases r1)
    case None
    with o h p assms show ?thesis by (simp add: loop_try_def)
  next
    case (Some e')
    with o assms have "e' = e" "b1' = b1" "hb1 = hb" by (simp_all add: loop_try_def)
    with o Some open_interface_raises [of host t b e b1] show ?thesis by simp
  qed
qed

lemma iteration_raised:
  assumes "loop_try host t hb b = (Some e, hb1, b1)"
    and "safe_json_dumps (error_status e) = Inr line"
  shows "connect_interface_iteration host t hb b =
         Inr (hb1, b1\<lparr>clients := filter (\<lambda>s. \<not> send_fails b1 s) (clients b1),
           closed := closed b1 \<union> set (filter (send_fails b1) (clients b1)),
           trace := trace b1
             @ map (\<lambda>s. SendAll s (rstrip_newline line @ [CHR 0x0A])) (clients b1)
             @ map Close (filter (send_fails b1) (clients b1)) @ [Sleep 3]\<rparr>)"
  using assms by (simp add: connect_interface_iteration_def broadcast_json_eq sleep_def)

lemma iteration_keeps:
  "\<exists>hb' b'. connect_interface_iteration host t hb b = Inr (hb', b') \<and>
     should_run b' = should_run b \<and> sleeps b' = sleeps b + 1"
proof -
  obtain r hb1 b1 where l: "loop_try host t hb b = (r, hb1, b1)"
    and l1: "should_run b1 = should_run b" "sleeps b1 = sleeps b + (if r = None then 1 else 0)"
    using loop_try_keeps by blast
  show ?thesis
  proof (cases r)
    case None
    with l l1 show ?thesis by (simp add: connect_interface_iteration_def)
  next
    case (Some e)
    obtain b2 where "broadcast_json (error_status e) b1 = Inr b2"
      and "should_run b2 = should_run b1" and "sleeps b2 = sleeps b1"
      using broadcast_json_keeps by blast
    with Some l l1 show ?thesis
      by (simp add: connect_interface_iteration_def sleep_def sleeps_def)
  qed
qed

lemma loop_total: "\<exists>r. connect_interface_loop host ts hb b = Inr r"
proof (induction ts arbitrary: hb b)
  case Nil
  show ?case by simp
next
  case (Cons t ts)
  let ?b0 = "if shutdown t then b\<lparr>should_run := False\<rparr> else b"
  obtain hb' b' where "connect_interface_iteration host t hb ?b0 = Inr (hb', b')"
    using iteration_keeps by blast
  with Cons.IH [of hb' b'] show ?case by (auto simp: Let_def)
qed

lemma loop_runs_every_turn:
  "should_run b \<Longrightarrow> \<forall>t \<in> set ts. \<not> shutdown t \<Longrightarrow>
   \<exists>hb' b'. connect_interface_loop host ts hb b = Inr (hb', b') \<and> should_run b' \<and>
     sleeps b' = sleeps b + length ts"
proof (induction ts arbitrary: hb b)
  case Nil
  then show ?case by simp
next
  case (Cons t ts)
  obtain hb1 b1 where i: "connect_interface_iteration host t hb b = Inr (hb1, b1)"
    and i1: "should_run b1 = should_run b" "sleeps b1 = sleeps b + 1"
    using iteration_keeps by blast
  from Cons.prems i1 have "should_run b1" and "\<forall>t \<in> set ts. \<not> shutdown t" by simp_all
  from Cons.IH [OF this, of hb1] obtain hb' b'
    where "connect_interface_loop host ts hb1 b1 = Inr (hb', b')" "should_run b'"
      "sleeps b' = sleeps b1 + length ts"
    by blast
  with Cons.prems i i1 show ?case by (simp add: Let_def)
qed


text \<open>
  C6. No error leaves the loop: for every sequence of turns the loop returns normally.
  While no shutdown is requested every turn is run to its end (one \<^verbatim>\<open>sleep\<close> each),
  whatever the upstream raised. A turn in which the \<^verbatim>\<open>try\<close> block raised \<open>e\<close>, of the
  interface-error class or of any other, broadcasts the status line with the message
  \<^verbatim>\<open>connect_error: e\<close> or \<^verbatim>\<open>unexpected_error: e\<close> to every registered connection and
  then sleeps 3 seconds.
\<close>

theorem loop_survives_errors:
  "(\<exists>r. connect_interface_loop host ts hb b = Inr r) \<and>
   (should_run b \<and> (\<forall>t \<in> set ts. \<not> shutdown t) \<longrightarrow>
      (\<exists>hb' b'. connect_interface_loop host ts hb b = Inr (hb', b') \<and> should_run b' \<and>
         sleeps b' = sleeps b + length ts)) \<and>
   (loop_try host t hb b = (Some e, hb1, b1) \<longrightarrow>
      (\<exists>line.
         line = json_object
                  [(''type'', json_string ''status''),
                   (''msg'', json_string ((case e of MeshInterfaceError m \<Rightarrow> ''connect_error: ''
                                           | _ \<Rightarrow> ''unexpected_error: '') @ error_str e))] \<and>
         connect_interface_iteration host t hb b =
           Inr (hb1, b1\<lparr>clients := filter (\<lambda>s. \<not> send_fails b1 s) (clients b1),
             closed := closed b1 \<union> set (filter (send_fails b1) (clients b1)),
             trace := trace b1
               @ map (\<lambda>s. SendAll s (rstrip_newline line @ [CHR 0x0A])) (clients b1)
               @ map Close (filter (send_fails b1) (clients b1)) @ [Sleep 3]\<rparr>)))"
proof (intro conjI impI)
  show "\<exists>r. connect_interface_loop host ts hb b = Inr r"
    by (rule loop_total)
next
  assume "should_run b \<and> (\<forall>t \<in> set ts. \<not> shutdown t)"
  then show "\<exists>hb' b'. connect_interface_loop host ts hb b = Inr (hb', b') \<and> should_run b' \<and>
      sleeps b' = sleeps b + length ts"
    using loop_runs_every_turn by blast
next
  assume a: "loop_try host t hb b = (Some e, hb1, b1)"
  from iteration_raised [OF a error_status_line]
  show "\<exists>line.
         line = json_object
                  [(''type'', json_string ''status''),
                   (''msg'', json_string ((case e of MeshInterfaceError m \<Rightarrow> ''connect_error: ''
                                           | _ \<Rightarrow> ''unexpected_error: '') @ error_str e))] \<and>
         connect_interface_iteration host t hb b =
           Inr (hb1, b1\<lparr>clients := filter (\<lambda>s. \<not> send_fails b1 s) (clients b1),
             closed := closed b1 \<union> set (filter (send_fails b1) (clients b1)),
             trace := trace b1
               @ map (\<lambda>s. SendAll s (rstrip_newline line @ [CHR 0x0A])) (clients b1)
               @ map Close (filter (send_fails b1) (clients b1)) @ [Sleep 3]\<rparr>)"
    by blast
qed

theorem loop_survives_errors_witness:
  "loop_try ''node'' failing_turn 0 one_client =
     (Some (MeshInterfaceError ''timed out''), 0, one_client) \<and>
   (\<exists>hb' b'.
      connect_interface_loop ''node'' [refused_turn, failing_turn] 0 one_client = Inr (hb', b') \<and>
      should_run b' \<and> sleeps b' = sleeps one_client + length [refused_turn, failing_turn]) \<and>
   connect_interface_iteration ''node'' failing_turn 0 one_client =
     Inr (0, one_client\<lparr>trace :=
          [SendAll 1 (json_object [(''type'', json_string ''status''),
                                   (''msg'', json_string ''connect_error: timed out'')]
                      @ [CHR 0x0A]),
           Sleep 3]\<rparr>)"
proof -
  have h1: "should_run one_client \<and> (\<forall>t \<in> set [refused_turn, failing_turn]. \<not> shutdown t)"
    by (simp add: one_client_def init_broker_def refused_turn_def failing_turn_def)
  have h2: "loop_try ''node'' failing_turn 0 one_client =
      (Some (MeshInterfaceError ''timed out''), 0, one_client)"
    by (simp add: loop_try_def open_interface_def one_client_def init_broker_def
          failing_turn_def)
  note w = loop_survives_errors
    [of "''node''" "[refused_turn, failing_turn]" 0 one_client failing_turn
        "MeshInterfaceError ''timed out''" 0 one_client]
  from w h1 have a: "\<exists>hb' b'.
      connect_interface_loop ''node'' [refused_turn, failing_turn] 0 one_client = Inr (hb', b') \<and>
      should_run b' \<and> sleeps b' = sleeps one_client + length [refused_turn, failing_turn]"
    by blast
  from w h2 have "connect_interface_iteration ''node'' failing_turn 0 one_client =
     Inr (0, one_client\<lparr>clients := filter (\<lambda>s. \<not> send_fails one_client s) (clients one_client),
       closed := closed one_client \<union> set (filter (send_fails one_client) (clients one_client)),
       trace := trace one_client
         @ map (\<lambda>s. SendAll s (rstrip_newline
             (json_object
                [(''type'', json_string ''status''),
                 (''msg'', json_string ((case MeshInterfaceError ''timed out'' of
                              MeshInterfaceError m \<Rightarrow> ''connect_error: ''
                            | _ \<Rightarrow> ''unexpected_error: '') @
                           error_str (MeshInterfaceError ''timed out'')))]) @ [CHR 0x0A]))
             (clients one_client)
         @ map Close (filter (send_fails one_client) (clients one_client)) @ [Sleep 3]\<rparr>)"
    by blast
  then have b: "connect_interface_iteration ''node'' failing_turn 0 one_client =
     Inr (0, one_client\<lparr>trace :=
          [SendAll 1 (json_object [(''type'', json_string ''status''),
                                   (''msg'', json_string ''connect_error: timed out'')]
                      @ [CHR 0x0A]),
           Sleep 3]\<rparr>)"
    by (simp add: one_client_def init_broker_def send_fails_def rstrip_newline_def
          json_object_def json_string_def escape_char_def)
  from h2 a b show ?thesis by blast
qed

section \<open>The event-arrival path: properties\<close>

lemma filter_dict_set:
  "filter (\<lambda>(k', v'). k' \<noteq> KStr k) (dict_set d k v) = filter (\<lambda>(k', v'). k' \<noteq> KStr k) d"
  by (induction d) auto

lemma tag_channel_frame:
  "filter (\<lambda>(k, v). k \<noteq> KStr ''meta'') (tag_channel kvs ch) =
   filter (\<lambda>(k, v). k \<noteq> KStr ''meta'') kvs"
  by (simp add: tag_channel_def Let_def filter_dict_set split: option.splits pyval.splits)

lemma tag_channel_meta:
  "dict_lookup (tag_channel kvs ch) ''meta'' =
   Some (PDict (dict_set (old_meta kvs) ''channelIndex'' ch))"
proof (cases "dict_lookup kvs ''meta''")
  case None
  then show ?thesis by (simp add: tag_channel_def old_meta_def Let_def dict_lookup_set)
next
  case (Some m)
  then show ?thesis
    by (cases m) (simp_all add: tag_channel_def old_meta_def Let_def dict_lookup_set)
qed

lemma extract_channel_loop_result:
  "is_int (extract_channel_loop pkt ps) \<or> extract_channel_loop pkt ps = PNone"
  by (induction ps) (simp_all add: Let_def)

lemma extract_channel_result: "is_int (extract_channel pkt) \<or> extract_channel pkt = PNone"
  by (simp add: extract_channel_def extract_channel_loop_result)

lemma inc_stats_tagged:
  "\<exists>b1. inc_stats_from_packet (PDict (tag_channel kvs ch)) b = Inr b1 \<and>
         trace b1 = trace b \<and> clients b1 = clients b \<and> verbose b1 = verbose b \<and>
         send_fails b1 = send_fails b"
proof -
  have "meta_ok (tag_channel kvs ch)"
    by (simp add: meta_ok_def tag_channel_meta)
  from inc_stats_from_packet_eq [OF this] show ?thesis
    by (simp add: send_fails_def fun_eq_iff)
qed

lemma pubsub_callback_packet:
  "fst (pubsub_callback (PDict kvs) b) = PDict (tag_channel kvs (extract_channel (PDict kvs)))"
  by (simp add: pubsub_callback_def Let_def split: sum.splits)

lemma pubsub_callback_broadcast:
  assumes "verbose b \<longrightarrow> packet_summary (PDict (tag_channel kvs (extract_channel (PDict kvs)))) = Inr ()"
    and "safe_json_dumps (PDict [(KStr ''type'', PStr ''packet''),
           (KStr ''packet'', PDict (tag_channel kvs (extract_channel (PDict kvs))))]) = Inr line"
  shows "trace (snd (pubsub_callback (PDict kvs) b)) =
         trace b @ map (\<lambda>s. SendAll s (rstrip_newline line @ [CHR 0x0A])) (clients b)
                 @ map Close (filter (send_fails b) (clients b))"
proof -
  obtain b1 where i: "inc_stats_from_packet (PDict (tag_channel kvs (extract_channel (PDict kvs)))) b = Inr b1"
    and i1: "trace b1 = trace b" "clients b1 = clients b" "verbose b1 = verbose b"
      "send_fails b1 = send_fails b"
    using inc_stats_tagged by blast
  show ?thesis
    using assms i i1
    by (simp add: pubsub_callback_def Let_def broadcast_json_eq)
qed

lemma pubsub_callback_not_dict:
  "\<not> is_dict packet \<Longrightarrow> pubsub_callback packet b = (packet, b)"
  by (cases packet) (simp_all add: pubsub_callback_def)

lemma tag_channel_other:
  "k \<noteq> ''meta'' \<Longrightarrow> dict_lookup (tag_channel kvs ch) k = dict_lookup kvs k"
  by (simp add: tag_channel_def Let_def dict_lookup_set split: option.splits pyval.splits)

lemma spec_resolve_old_meta:
  "spec_resolve (PDict kvs) (''meta'' # k # ks) =
   (case dict_lookup (old_meta kvs) k of None \<Rightarrow> None | Some v \<Rightarrow> spec_resolve v ks)"
proof (cases "dict_lookup kvs ''meta''")
  case None
  then show ?thesis by (simp add: old_meta_def)
next
  case (Some m)
  then show ?thesis by (cases m) (simp_all add: old_meta_def)
qed

lemma tag_channel_resolve:
  assumes "p \<noteq> []" and "p \<noteq> [''meta'']" and "take 2 p \<noteq> [''meta'', ''channelIndex'']"
  shows "spec_resolve (PDict (tag_channel kvs ch)) p = spec_resolve (PDict kvs) p"
proof -
  from assms(1) obtain k ks where p: "p = k # ks" by (cases p) auto
  show ?thesis
  proof (cases "k = ''meta''")
    case False
    then show ?thesis by (simp add: p tag_channel_other)
  next
    case True
    with assms(2) p obtain k2 ks2 where ks: "ks = k2 # ks2" by (cases ks) auto
    with assms(3) p True have "k2 \<noteq> ''channelIndex''" by auto
    then have "spec_resolve (PDict (tag_channel kvs ch)) (''meta'' # k2 # ks2) =
        (case dict_lookup (old_meta kvs) k2 of None \<Rightarrow> None | Some v \<Rightarrow> spec_resolve v ks2)"
      by (simp add: tag_channel_meta dict_lookup_set)
    then show ?thesis
      by (simp only: p ks True spec_resolve_old_meta)
  qed
qed

lemma tag_channel_tag:
  "spec_resolve (PDict (tag_channel kvs ch)) [''meta'', ''channelIndex''] = Some ch"
  by (simp add: tag_channel_meta dict_lookup_set)

lemma extract_channel_loop_cong:
  "\<forall>p \<in> set ps. get a p PNone = get b p PNone \<Longrightarrow>
   extract_channel_loop a ps = extract_channel_loop b ps"
  by (induction ps) (simp_all add: Let_def)

lemma extract_channel_tagged:
  "extract_channel (PDict (tag_channel kvs ch)) = extract_channel (PDict kvs)"
proof -
  have "get (PDict (tag_channel kvs ch)) p PNone = get (PDict kvs) p PNone"
    if "p \<in> set candidates" for p
  proof -
    from that have "split_on CHR ''.'' p \<in> set spec_paths"
      using split_candidates by (metis image_eqI list.set_map)
    then have "split_on CHR ''.'' p \<noteq> [] \<and> split_on CHR ''.'' p \<noteq> [''meta''] \<and>
        take 2 (split_on CHR ''.'' p) \<noteq> [''meta'', ''channelIndex'']"
      by (auto simp: spec_paths_def)
    then have "spec_resolve (PDict (tag_channel kvs ch)) (split_on CHR ''.'' p) =
        spec_resolve (PDict kvs) (split_on CHR ''.'' p)"
      by (intro tag_channel_resolve) simp_all
    then show ?thesis by (simp only: get_def get_loop_spec_resolve)
  qed
  then show ?thesis
    unfolding extract_channel_def by (intro extract_channel_loop_cong) blast
qed

lemma counted_channel_tagged: "counted_channel (PDict (tag_channel kvs ch)) = ch"
  by (simp only: counted_channel_def tag_channel_tag option.case)

text \<open>
  On the event-arrival path the packet has just been tagged with what the extractor
  returned, so there every packet is counted under the channel the extractor derives
  from it: the preference for \<^verbatim>\<open>meta.channelIndex\<close> shows only when the function is
  called on a packet that was not tagged by the callback.
\<close>

lemma pubsub_callback_counts:
  "total_packets (snd (pubsub_callback (PDict kvs) b)) = total_packets b + 1 \<and>
   by_channel (snd (pubsub_callback (PDict kvs) b)) =
     (if is_int (extract_channel (PDict kvs))
      then by_channel_set (by_channel b) (extract_channel (PDict kvs))
             (by_channel_get (by_channel b) (extract_channel (PDict kvs)) 0 + 1)
      else by_channel b)"
proof -
  let ?ch = "extract_channel (PDict kvs)"
  let ?p = "PDict (tag_channel kvs ?ch)"
  let ?b1 = "b\<lparr>total_packets := total_packets b + 1,
                by_channel :=
                  (if is_int ?ch
                   then by_channel_set (by_channel b) ?ch (by_channel_get (by_channel b) ?ch 0 + 1)
                   else by_channel b)\<rparr>"
  have "meta_ok (tag_channel kvs ?ch)"
    by (simp add: meta_ok_def tag_channel_meta)
  from inc_stats_from_packet_eq [OF this, of b]
  have i: "inc_stats_from_packet ?p b = Inr ?b1"
    by (simp only: counted_channel_tagged)
  obtain line where l: "safe_json_dumps (PDict [(KStr ''type'', PStr ''packet''),
      (KStr ''packet'', ?p)]) = Inr line"
    using safe_json_dumps_total by blast
  show ?thesis
    by (cases "packet_summary ?p")
       (simp_all add: pubsub_callback_def Let_def i broadcast_json_eq [OF l])
qed

text \<open>
  C8. On a packet that is a dictionary the callback changes the packet only at
  \<^verbatim>\<open>meta.channelIndex\<close>, which becomes the extracted channel (an integer or \<^verbatim>\<open>None\<close>):
  the items under every key but \<^verbatim>\<open>meta\<close> are untouched, and every dotted path that
  neither leads to \<^verbatim>\<open>meta.channelIndex\<close> nor goes through it resolves as before. The
  packet so tagged is what is serialized, inside \<^verbatim>\<open>{"type": "packet", "packet": ...}\<close>,
  and sent to every registered connection (unless the verbose summary raises). A packet
  that is no dictionary is left as it is, and nothing is sent.
\<close>

theorem pubsub_callback_injects_tag:
  "(\<exists>kvs'.
      fst (pubsub_callback (PDict kvs) b) = PDict kvs' \<and>
      filter (\<lambda>(k, v). k \<noteq> KStr ''meta'') kvs' = filter (\<lambda>(k, v). k \<noteq> KStr ''meta'') kvs \<and>
      spec_resolve (PDict kvs') [''meta'', ''channelIndex''] = Some (extract_channel (PDict kvs)) \<and>
      (is_int (extract_channel (PDict kvs)) \<or> extract_channel (PDict kvs) = PNone) \<and>
      (\<forall>p. p \<noteq> [] \<and> p \<noteq> [''meta''] \<and> take 2 p \<noteq> [''meta'', ''channelIndex''] \<longrightarrow>
           spec_resolve (PDict kvs') p = spec_resolve (PDict kvs) p) \<and>
      ((verbose b \<longrightarrow> packet_summary (PDict kvs') = Inr ()) \<longrightarrow>
         (\<exists>line.
            safe_json_dumps (PDict [(KStr ''type'', PStr ''packet''),
                                    (KStr ''packet'', PDict kvs')]) = Inr line \<and>
            trace (snd (pubsub_callback (PDict kvs) b)) =
              trace b @ map (\<lambda>s. SendAll s (rstrip_newline line @ [CHR 0x0A])) (clients b)
                      @ map Close (filter (send_fails b) (clients b))))) \<and>
   (\<not> is_dict other \<longrightarrow> pubsub_callback other b = (other, b))"
proof (intro conjI)
  let ?kvs' = "tag_channel kvs (extract_channel (PDict kvs))"
  show "\<exists>kvs'.
      fst (pubsub_callback (PDict kvs) b) = PDict kvs' \<and>
      filter (\<lambda>(k, v). k \<noteq> KStr ''meta'') kvs' = filter (\<lambda>(k, v). k \<noteq> KStr ''meta'') kvs \<and>
      spec_resolve (PDict kvs') [''meta'', ''channelIndex''] = Some (extract_channel (PDict kvs)) \<and>
      (is_int (extract_channel (PDict kvs)) \<or> extract_channel (PDict kvs) = PNone) \<and>
      (\<forall>p. p \<noteq> [] \<and> p \<noteq> [''meta''] \<and> take 2 p \<noteq> [''meta'', ''channelIndex''] \<longrightarrow>
           spec_resolve (PDict kvs') p = spec_resolve (PDict kvs) p) \<and>
      ((verbose b \<longrightarrow> packet_summary (PDict kvs') = Inr ()) \<longrightarrow>
         (\<exists>line.
            safe_json_dumps (PDict [(KStr ''type'', PStr ''packet''),
                                    (KStr ''packet'', PDict kvs')]) = Inr line \<and>
            trace (snd (pubsub_callback (PDict kvs) b)) =
              trace b @ map (\<lambda>s. SendAll s (rstrip_newline line @ [CHR 0x0A])) (clients b)
                      @ map Close (filter (send_fails b) (clients b))))"
  proof (rule exI [where x = ?kvs'], intro conjI allI impI)
    show "fst (pubsub_callback (PDict kvs) b) = PDict ?kvs'"
      by (rule pubsub_callback_packet)
    show "filter (\<lambda>(k, v). k \<noteq> KStr ''meta'') ?kvs' = filter (\<lambda>(k, v). k \<noteq> KStr ''meta'') kvs"
      by (rule tag_channel_frame)
    show "spec_resolve (PDict ?kvs') [''meta'', ''channelIndex''] = Some (extract_channel (PDict kvs))"
      by (rule tag_channel_tag)
    show "is_int (extract_channel (PDict kvs)) \<or> extract_channel (PDict kvs) = PNone"
      by (rule extract_channel_result)
  next
    fix p
    assume "p \<noteq> [] \<and> p \<noteq> [''meta''] \<and> take 2 p \<noteq> [''meta'', ''channelIndex'']"
    then show "spec_resolve (PDict ?kvs') p = spec_resolve (PDict kvs) p"
      by (simp add: tag_channel_resolve)
  next
    assume v: "verbose b \<longrightarrow> packet_summary (PDict ?kvs') = Inr ()"
    obtain line where l: "safe_json_dumps (PDict [(KStr ''type'', PStr ''packet''),
                                    (KStr ''packet'', PDict ?kvs')]) = Inr line"
      using safe_json_dumps_total by blast
    from pubsub_callback_broadcast [OF v l] l
    show "\<exists>line.
            safe_json_dumps (PDict [(KStr ''type'', PStr ''packet''),
                                    (KStr ''packet'', PDict ?kvs')]) = Inr line \<and>
            trace (snd (pubsub_callback (PDict kvs) b)) =
              trace b @ map (\<lambda>s. SendAll s (rstrip_newline line @ [CHR 0x0A])) (clients b)
                      @ map Close (filter (send_fails b) (clients b))"
      by blast
  qed
  show "\<not> is_dict other \<longrightarrow> pubsub_callback other b = (other, b)"
    using pubsub_callback_not_dict by blast
qed

theorem pubsub_callback_injects_tag_witness:
  "fst (pubsub_callback (PDict example_packet) one_client) =
     PDict (example_packet @ [(KStr ''meta'', PDict [(KStr ''channelIndex'', PInt 3)])]) \<and>
   spec_resolve (fst (pubsub_callback (PDict example_packet) one_client)) [''rssi''] =
     spec_resolve (PDict example_packet) [''rssi''] \<and>
   (\<exists>line. trace (snd (pubsub_callback (PDict example_packet) one_client)) =
      [SendAll 1 (line @ [CHR 0x0A])]) \<and>
   pubsub_callback (PStr ''x'') one_client = (PStr ''x'', one_client)"
proof -
  note w = pubsub_callback_injects_tag [of example_packet one_client "PStr ''x''"]
  have e: "extract_channel (PDict example_packet) = PInt 3"
    by (simp add: example_packet_def extract_channel_def candidates_def get_def is_int_def)
  have a: "fst (pubsub_callback (PDict example_packet) one_client) =
     PDict (example_packet @ [(KStr ''meta'', PDict [(KStr ''channelIndex'', PInt 3)])])"
    by (simp add: pubsub_callback_packet e) (simp add: example_packet_def tag_channel_def)
  have v: "\<not> verbose one_client" and c: "clients one_client = [1]"
    and t: "trace one_client = []" and f: "\<not> send_fails one_client 1"
    by (simp_all add: one_client_def init_broker_def send_fails_def)
  from w obtain kvs' where k1: "fst (pubsub_callback (PDict example_packet) one_client) = PDict kvs'"
    and k2: "\<forall>p. p \<noteq> [] \<and> p \<noteq> [''meta''] \<and> take 2 p \<noteq> [''meta'', ''channelIndex''] \<longrightarrow>
           spec_resolve (PDict kvs') p = spec_resolve (PDict example_packet) p"
    and k3: "(verbose one_client \<longrightarrow> packet_summary (PDict kvs') = Inr ()) \<longrightarrow>
         (\<exists>line.
            safe_json_dumps (PDict [(KStr ''type'', PStr ''packet''),
                                    (KStr ''packet'', PDict kvs')]) = Inr line \<and>
            trace (snd (pubsub_callback (PDict example_packet) one_client)) =
              trace one_client
                @ map (\<lambda>s. SendAll s (rstrip_newline line @ [CHR 0x0A])) (clients one_client)
                @ map Close (filter (send_fails one_client) (clients one_client)))"
    by (elim conjE exE)
  have "[''rssi''] \<noteq> [] \<and> [''rssi''] \<noteq> [''meta''] \<and>
      take 2 [''rssi''] \<noteq> [''meta'', ''channelIndex'']"
    by simp
  with k2 have "spec_resolve (PDict kvs') [''rssi''] = spec_resolve (PDict example_packet) [''rssi'']"
    by blast
  with k1 have "spec_resolve (fst (pubsub_callback (PDict example_packet) one_client)) [''rssi''] =
     spec_resolve (PDict example_packet) [''rssi'']"
    by simp
  moreover from k3 v obtain line
    where "trace (snd (pubsub_callback (PDict example_packet) one_client)) =
       trace one_client
         @ map (\<lambda>s. SendAll s (rstrip_newline line @ [CHR 0x0A])) (clients one_client)
         @ map Close (filter (send_fails one_client) (clients one_client))"
    by blast
  then have "\<exists>line. trace (snd (pubsub_callback (PDict example_packet) one_client)) =
      [SendAll 1 (line @ [CHR 0x0A])]"
    using f by (simp add: c t)
  moreover from w have "pubsub_callback (PStr ''x'') one_client = (PStr ''x'', one_client)"
    by simp
  ultimately show ?thesis using a by blast
qed

section \<open>The serializer: properties\<close>

lemma skip_ws_Nil [simp]: "skip_ws [] = []"
  by (simp add: skip_ws_def)

lemma skip_ws_start: "\<not> is_ws c \<Longrightarrow> skip_ws (c # s) = c # s"
  by (simp add: skip_ws_def)

lemma skip_ws_space: "skip_ws (CHR '' '' # s) = skip_ws s"
  by (simp add: skip_ws_def is_ws_def)

lemma value_start_not_ws: "value_start c \<Longrightarrow> \<not> is_ws c"
  by (auto simp: value_start_def is_ws_def)

lemma is_hex_hex_digit: "n < 16 \<Longrightarrow> is_hex (hex_digit n)"
  using hex_digit_lower [of n] by (auto simp: is_hex_def)

lemma json_chars_escape: "json_chars (escape_char c @ rest) = json_chars rest"
proof -
  have h: "is_hex (hex_digit (of_char c div 16))" if "(of_char c :: nat) < 0x20"
    using that by (intro is_hex_hex_digit) simp
  have l: "is_hex (hex_digit (of_char c mod 16))"
    by (intro is_hex_hex_digit) simp
  have z: "is_hex CHR ''0''" by (simp add: is_hex_def)
  show ?thesis
    using h l z by (simp add: escape_char_def)
qed

lemma json_chars_string:
  "json_chars (concat (map escape_char s) @ CHR 0x22 # r) = Some r"
  by (induction s) (simp_all add: json_chars_escape)

lemma is_digit_digit_char: "is_digit (digit_char d)"
  unfolding is_digit_def digit_char_def by (rule nth_mem) simp

lemma digits_nat_digits: "\<forall>c \<in> set (digits_nat n). is_digit c"
proof (induction n rule: digits_nat.induct)
  case (1 n)
  then show ?case
    by (subst digits_nat.simps) (auto simp: is_digit_digit_char)
qed

lemma digits_nat_nonempty: "digits_nat n \<noteq> []"
  by (subst digits_nat.simps) simp

lemma digit_char_nonzero: "0 < d \<Longrightarrow> d < 10 \<Longrightarrow> digit_char d \<noteq> CHR ''0''"
proof -
  assume "0 < d" and "d < 10"
  then have "d = 1 \<or> d = 2 \<or> d = 3 \<or> d = 4 \<or> d = 5 \<or> d = 6 \<or> d = 7 \<or> d = 8 \<or> d = 9"
    by arith
  then show ?thesis by (auto simp: digit_char_def)
qed

lemma digits_nat_hd: "0 < n \<Longrightarrow> hd (digits_nat n) \<noteq> CHR ''0''"
proof (induction n rule: digits_nat.induct)
  case (1 n)
  show ?case
  proof (cases "n < 10")
    case True
    with "1.prems" show ?thesis
      by (subst digits_nat.simps) (simp add: digit_char_nonzero)
  next
    case False
    then have "0 < n div 10" by simp
    with "1.IH" False have "hd (digits_nat (n div 10)) \<noteq> CHR ''0''" by simp
    with False show ?thesis
      by (subst digits_nat.simps) (simp add: digits_nat_nonempty)
  qed
qed

lemma digits_nat_zero: "digits_nat 0 = ''0''"
  by (subst digits_nat.simps) (simp add: digit_char_def)

lemma dropWhile_digits:
  "\<forall>c \<in> set ds. is_digit c \<Longrightarrow> no_digit_ahead r \<Longrightarrow> dropWhile is_digit (ds @ r) = r"
  by (cases r) (simp_all add: dropWhile_append2 no_digit_ahead_def)

lemma json_digits_text:
  "ds \<noteq> [] \<Longrightarrow> \<forall>c \<in> set ds. is_digit c \<Longrightarrow> no_digit_ahead r \<Longrightarrow>
   json_digits (ds @ r) = Some r"
proof -
  assume ne: "ds \<noteq> []" and d: "\<forall>c \<in> set ds. is_digit c" and r: "no_digit_ahead r"
  from ne obtain c cs where ds: "ds = c # cs" by (cases ds) auto
  with d have "\<forall>c \<in> set cs. is_digit c" by simp
  then have "dropWhile is_digit (cs @ r) = r" using r by (rule dropWhile_digits)
  with d ds show ?thesis by (simp add: json_digits_def)
qed

lemma json_int_digits: "no_digit_ahead r \<Longrightarrow> json_int (digits_nat n @ r) = Some r"
proof (cases "n = 0")
  case True
  then show ?thesis by (simp add: digits_nat_zero json_int_def)
next
  case False
  assume r: "no_digit_ahead r"
  obtain c cs where d: "digits_nat n = c # cs"
    using digits_nat_nonempty [of n] by (cases "digits_nat n") auto
  from False digits_nat_hd [of n] d have "c \<noteq> CHR ''0''" by simp
  moreover from digits_nat_digits [of n] d have "is_digit c" and "\<forall>c \<in> set cs. is_digit c"
    by simp_all
  moreover from this r have "dropWhile is_digit (cs @ r) = r" by (simp only: dropWhile_digits)
  ultimately show ?thesis
    by (simp add: d json_int_def)
qed

lemma num_end_no_digit: "num_end r \<Longrightarrow> no_digit_ahead r"
  by (cases r) (simp_all add: num_end_def no_digit_ahead_def)

lemma json_frac_end: "num_end r \<Longrightarrow> json_frac r = Some r"
  by (cases r) (simp_all add: json_frac_def num_end_def)

lemma json_exp_end: "num_end r \<Longrightarrow> json_exp r = Some r"
  by (cases r) (simp_all add: json_exp_def num_end_def)

lemma digits_nat_not_minus: "digits_nat n = c # cs \<Longrightarrow> c \<noteq> CHR ''-''"
  using digits_nat_digits [of n] by (auto simp: is_digit_def)

lemma json_number_digits:
  assumes "json_frac r = Some r1" and "json_exp r1 = Some r2" and "no_digit_ahead r"
  shows "json_number (digits_nat n @ r) = Some r2"
    and "json_number (CHR ''-'' # digits_nat n @ r) = Some r2"
proof -
  obtain c cs where d: "digits_nat n = c # cs"
    using digits_nat_nonempty [of n] by (cases "digits_nat n") auto
  have "json_int (c # cs @ r) = Some r"
    using json_int_digits [OF assms(3), of n] by (simp add: d)
  with assms digits_nat_not_minus [OF d]
  show "json_number (digits_nat n @ r) = Some r2"
    and "json_number (CHR ''-'' # digits_nat n @ r) = Some r2"
    by (simp_all add: json_number_def d)
qed

lemma json_number_int: "num_end r \<Longrightarrow> json_number (int_repr i @ r) = Some r"
  using json_number_digits [of r r r] 
  by (simp add: int_repr_def json_frac_end json_exp_end num_end_no_digit)

lemma is_digit_zero: "is_digit CHR ''0''"
  by (simp add: is_digit_def)

lemma exponent_repr_digits:
  "\<exists>sg ds. exponent_repr e = sg # ds \<and> (sg = CHR ''+'' \<or> sg = CHR ''-'') \<and> ds \<noteq> [] \<and>
     (\<forall>c \<in> set ds. is_digit c)"
  by (cases "e < 0"; cases "nat \<bar>e\<bar> < 10")
     (simp_all add: exponent_repr_def digits_nat_digits digits_nat_nonempty is_digit_zero)

lemma json_exp_text:
  assumes "num_end r"
  shows "json_exp (CHR ''e'' # exponent_repr e @ r) = Some r"
proof -
  obtain sg ds where x: "exponent_repr e = sg # ds" "sg = CHR ''+'' \<or> sg = CHR ''-''"
    "ds \<noteq> []" "\<forall>c \<in> set ds. is_digit c"
    using exponent_repr_digits by blast
  have "json_digits (ds @ r) = Some r"
    using x(3,4) num_end_no_digit [OF assms] by (rule json_digits_text)
  with x(1,2) show ?thesis by (auto simp: json_exp_def)
qed

lemma json_number_float:
  assumes "\<not> is_nan f" and "\<not> is_inf f" and "num_end r"
  shows "json_number (float_repr f @ r) = Some r"
proof (cases f)
  case (Finite neg ip fr ex)
  have fd: "\<forall>c \<in> set (map digit_char fr). is_digit c"
    by (simp add: is_digit_digit_char)
  have e: "json_exp r = Some r" using assms(3) by (rule json_exp_end)
  have nd: "no_digit_ahead r" using assms(3) by (rule num_end_no_digit)
  show ?thesis
  proof (cases ex)
    case None
    let ?F = "if fr = [] then ''0'' else map digit_char fr"
    have "\<forall>c \<in> set ?F. is_digit c" by (simp add: is_digit_digit_char is_digit_zero)
    moreover have "?F \<noteq> []" by simp
    ultimately have "json_digits (?F @ r) = Some r"
      using nd by (intro json_digits_text)
    then have "json_frac (CHR ''.'' # ?F @ r) = Some r"
      by (simp add: json_frac_def)
    from json_number_digits [OF this e, of ip]
    show ?thesis
      by (simp add: Finite None no_digit_ahead_def is_digit_def)
  next
    case (Some x)
    let ?E = "CHR ''e'' # exponent_repr x @ r"
    have ee: "json_exp ?E = Some r" using assms(3) by (rule json_exp_text)
    have ne: "no_digit_ahead ?E" by (simp add: no_digit_ahead_def is_digit_def)
    show ?thesis
    proof (cases "fr = []")
      case True
      have "json_frac ?E = Some ?E" by (simp add: json_frac_def)
      from json_number_digits [OF this ee ne, of ip]
      show ?thesis by (simp add: Finite Some True)
    next
      case False
      have "json_digits (map digit_char fr @ ?E) = Some ?E"
        using False fd ne by (intro json_digits_text) simp_all
      then have "json_frac (CHR ''.'' # map digit_char fr @ ?E) = Some ?E"
        by (simp add: json_frac_def)
      from json_number_digits [OF this ee, of ip]
      show ?thesis by (simp add: Finite Some False no_digit_ahead_def is_digit_def)
    qed
  qed
qed (use assms in simp_all)

lemma delim_num_end: "delim r \<Longrightarrow> num_end r"
  by (cases r) (auto simp: delim_def num_end_def is_digit_def)

lemma json_value_number:
  assumes "t \<noteq> []" and "is_digit (hd t) \<or> hd t = CHR ''-''"
  shows "json_value (Suc m) (t @ r) = json_number (t @ r)"
proof -
  from assms(1) obtain c cs where t: "t = c # cs" by (cases t) auto
  with assms(2) have "is_digit c \<or> c = CHR ''-''" by simp
  then show ?thesis
    by (auto simp: t skip_ws_def is_ws_def is_digit_def)
qed

lemma value_start_number: "is_digit c \<or> c = CHR ''-'' \<Longrightarrow> value_start c"
  by (auto simp: value_start_def is_digit_def)

lemma number_value_text:
  assumes "t \<noteq> []" and "is_digit (hd t) \<or> hd t = CHR ''-''"
    and "\<And>r. num_end r \<Longrightarrow> json_number (t @ r) = Some r"
  shows "value_text t"
  unfolding value_text_def
proof (intro conjI allI impI)
  show "t \<noteq> []" by fact
  show "value_start (hd t)" using assms(2) by (rule value_start_number)
next
  fix n r
  assume a: "length t \<le> n \<and> delim r"
  with assms(1) obtain m where "n = Suc m" by (cases n) auto
  with a assms show "json_value n (t @ r) = Some r"
    by (simp add: json_value_number delim_num_end del: json_value.simps)
qed

lemma int_repr_start: "int_repr i \<noteq> [] \<and> (is_digit (hd (int_repr i)) \<or> hd (int_repr i) = CHR ''-'')"
proof -
  obtain c cs where d: "digits_nat (nat i) = c # cs"
    using digits_nat_nonempty [of "nat i"] by (cases "digits_nat (nat i)") auto
  with digits_nat_digits [of "nat i"] have "is_digit c" by simp
  with d show ?thesis by (simp add: int_repr_def)
qed

lemma value_text_int: "value_text (int_repr i)"
proof (rule number_value_text)
  show "int_repr i \<noteq> []" using int_repr_start by blast
  show "is_digit (hd (int_repr i)) \<or> hd (int_repr i) = CHR ''-''" using int_repr_start by blast
  show "\<And>r. num_end r \<Longrightarrow> json_number (int_repr i @ r) = Some r" by (rule json_number_int)
qed

lemma float_repr_start:
  assumes "\<not> is_nan f" and "\<not> is_inf f"
  shows "float_repr f \<noteq> [] \<and> (is_digit (hd (float_repr f)) \<or> hd (float_repr f) = CHR ''-'')"
proof (cases f)
  case (Finite neg ip fr ex)
  obtain c cs where d: "digits_nat ip = c # cs"
    using digits_nat_nonempty [of ip] by (cases "digits_nat ip") auto
  with digits_nat_digits [of ip] have "is_digit c" by simp
  with d show ?thesis by (simp add: Finite)
qed (use assms in simp_all)

lemma value_text_float:
  assumes "\<not> is_nan f" and "\<not> is_inf f"
  shows "value_text (float_repr f)"
proof (rule number_value_text)
  show "float_repr f \<noteq> []" using float_repr_start [OF assms] by blast
  show "is_digit (hd (float_repr f)) \<or> hd (float_repr f) = CHR ''-''"
    using float_repr_start [OF assms] by blast
  show "\<And>r. num_end r \<Longrightarrow> json_number (float_repr f @ r) = Some r"
    using assms by (rule json_number_float)
qed

lemma value_text_literal:
  "value_text ''null''" "value_text ''true''" "value_text ''false''"
proof -
  have "json_value n (''null'' @ r) = Some r" if "length ''null'' \<le> n" for n r
    using that by (cases n) (simp_all add: skip_ws_def is_ws_def strip_prefix_def)
  then show "value_text ''null''" by (simp add: value_text_def value_start_def)
  have "json_value n (''true'' @ r) = Some r" if "length ''true'' \<le> n" for n r
    using that by (cases n) (simp_all add: skip_ws_def is_ws_def strip_prefix_def)
  then show "value_text ''true''" by (simp add: value_text_def value_start_def)
  have "json_value n (''false'' @ r) = Some r" if "length ''false'' \<le> n" for n r
    using that by (cases n) (simp_all add: skip_ws_def is_ws_def strip_prefix_def)
  then show "value_text ''false''" by (simp add: value_text_def value_start_def)
qed

lemma value_text_string: "value_text (json_string s)"
proof -
  have "json_value n (json_string s @ r) = Some r" if "length (json_string s) \<le> n" for n r
    using that
    by (cases n) (simp_all add: json_string_def skip_ws_def is_ws_def json_chars_string)
  then show ?thesis by (simp add: value_text_def value_start_def json_string_def)
qed

lemma json_value_space: "json_value n (CHR '' '' # s) = json_value n s"
  by (cases n) (simp_all add: skip_ws_space)

lemma json_elements_space: "json_elements n (CHR '' '' # s) = json_elements n s"
  by (cases n) (simp_all add: json_value_space del: json_value.simps)

lemma json_members_space: "json_members n (CHR '' '' # s) = json_members n s"
  by (cases n) (simp_all add: skip_ws_space del: json_value.simps)

lemma value_textD:
  "value_text t \<Longrightarrow> length t \<le> n \<Longrightarrow> delim r \<Longrightarrow> json_value n (t @ r) = Some r"
  by (simp add: value_text_def)

lemma value_text_start: "value_text t \<Longrightarrow> \<exists>c cs. t = c # cs \<and> value_start c"
  by (cases t) (simp_all add: value_text_def)

lemma join_Cons: "join sep (t # ts) = t @ (if ts = [] then [] else sep @ join sep ts)"
  by (cases ts) simp_all

text \<open>The two item separators: a comma, perhaps followed by a space.\<close>

lemma json_elements_sep:
  assumes "sep = '','' \<or> sep = '', ''"
  shows "json_elements n (tl sep @ s) = json_elements n s"
  using assms by (auto simp: json_elements_space)

lemma json_members_sep:
  assumes "sep = '','' \<or> sep = '', ''"
  shows "json_members n (tl sep @ s) = json_members n s"
  using assms by (auto simp: json_members_space)

lemma json_elements_text:
  assumes sep: "sep = '','' \<or> sep = '', ''"
  shows "ts \<noteq> [] \<Longrightarrow> \<forall>t \<in> set ts. value_text t \<Longrightarrow> length (join sep ts) < n \<Longrightarrow>
         json_elements n (join sep ts @ CHR '']'' # r) = Some r"
proof (induction ts arbitrary: n)
  case Nil
  then show ?case by simp
next
  case (Cons t ts)
  from Cons.prems(3) obtain m where n: "n = Suc m" by (cases n) auto
  have vt: "value_text t" using Cons.prems(2) by simp
  then have tne: "t \<noteq> []" by (simp add: value_text_def)
  have s: "sep = CHR '','' # tl sep" using sep by auto
  let ?rest = "if ts = [] then CHR '']'' # r else sep @ join sep ts @ CHR '']'' # r"
  have jt: "join sep (t # ts) @ CHR '']'' # r = t @ ?rest"
    by (simp add: join_Cons)
  have len: "length (join sep (t # ts)) = length t + (if ts = [] then 0 else length sep + length (join sep ts))"
    by (simp add: join_Cons)
  have "delim ?rest" using sep by (auto simp: delim_def)
  moreover have "length t \<le> m" using Cons.prems(3) n len by (simp split: if_splits)
  ultimately have v: "json_value m (t @ ?rest) = Some ?rest"
    using vt by (intro value_textD)
  show ?case
  proof (cases "ts = []")
    case True
    with v show ?thesis
      by (simp add: n jt skip_ws_def is_ws_def del: json_value.simps)
  next
    case False
    have "length (join sep ts) < m"
      using Cons.prems(3) n len tne False by (cases t) simp_all
    with Cons.IH [OF False, of m] Cons.prems(2)
    have ih: "json_elements m (join sep ts @ CHR '']'' # r) = Some r" by simp
    have "skip_ws (sep @ join sep ts @ CHR '']'' # r) =
          CHR '','' # tl sep @ join sep ts @ CHR '']'' # r"
      using sep by (auto simp: skip_ws_def is_ws_def)
    with v False ih json_elements_sep [OF sep, of m "join sep ts @ CHR '']'' # r"]
    show ?thesis
      by (simp add: n jt del: json_value.simps)
  qed
qed

lemma value_text_array:
  assumes sep: "sep = '','' \<or> sep = '', ''" and ts: "\<forall>t \<in> set ts. value_text t"
  shows "value_text (''['' @ join sep ts @ '']'')"
  unfolding value_text_def
proof (intro conjI allI impI)
  show "''['' @ join sep ts @ '']'' \<noteq> []" by simp
  show "value_start (hd (''['' @ join sep ts @ '']''))" by (simp add: value_start_def)
next
  fix n r
  assume a: "length (''['' @ join sep ts @ '']'') \<le> n \<and> delim r"
  then obtain m where n: "n = Suc m" by (cases n) auto
  show "json_value n ((''['' @ join sep ts @ '']'') @ r) = Some r"
  proof (cases "ts = []")
    case True
    then show ?thesis by (simp add: n skip_ws_def is_ws_def)
  next
    case False
    then obtain t us where tu: "ts = t # us" by (cases ts) auto
    with ts obtain c cs where c: "t = c # cs" "value_start c"
      using value_text_start [of t] by auto
    have nb: "c \<noteq> CHR '']''" "\<not> is_ws c"
      using c(2) by (auto simp: value_start_def is_ws_def)
    have lt: "length (join sep ts) < m" using a n by simp
    from json_elements_text [OF sep False ts lt, of r]
    have e: "json_elements m (join sep ts @ CHR '']'' # r) = Some r" .
    have j: "join sep ts @ CHR '']'' # r = c # (cs @ (if us = [] then [] else sep @ join sep us) @ CHR '']'' # r)"
      by (simp add: tu c(1) join_Cons)
    have "skip_ws (join sep ts @ CHR '']'' # r) = join sep ts @ CHR '']'' # r"
      unfolding j using nb(2) by (rule skip_ws_start)
    with e nb(1) j show ?thesis
      by (simp add: n skip_ws_def is_ws_def)
  qed
qed

lemma json_value_ksep:
  assumes "ksep = '':'' \<or> ksep = '': ''"
  shows "json_value n (tl ksep @ s) = json_value n s"
  using assms by (auto simp: json_value_space)

lemma json_members_text:
  assumes sep: "sep = '','' \<or> sep = '', ''" and ksep: "ksep = '':'' \<or> ksep = '': ''"
  shows "ms \<noteq> [] \<Longrightarrow> \<forall>m \<in> set ms. member_text ksep m \<Longrightarrow> length (join sep ms) < n \<Longrightarrow>
         json_members n (join sep ms @ CHR ''}'' # r) = Some r"
proof (induction ms arbitrary: n)
  case Nil
  then show ?case by simp
next
  case (Cons m ms)
  from Cons.prems(3) obtain n' where n: "n = Suc n'" by (cases n) auto
  from Cons.prems(2) obtain k t where m: "m = json_string k @ ksep @ t" and vt: "value_text t"
    by (auto simp: member_text_def)
  have tne: "t \<noteq> []" using vt by (simp add: value_text_def)
  have s: "sep = CHR '','' # tl sep" using sep by auto
  have ks: "ksep = CHR '':'' # tl ksep" using ksep by auto
  let ?rest = "if ms = [] then CHR ''}'' # r else sep @ join sep ms @ CHR ''}'' # r"
  have jt: "join sep (m # ms) @ CHR ''}'' # r =
      CHR 0x22 # concat (map escape_char k) @ CHR 0x22 # (CHR '':'' # tl ksep @ t @ ?rest)"
    using ks by (simp add: join_Cons m json_string_def)
  have len: "length (join sep (m # ms)) =
      length (json_string k) + length ksep + length t +
      (if ms = [] then 0 else length sep + length (join sep ms))"
    by (simp add: join_Cons m)
  have "delim ?rest" using sep by (auto simp: delim_def)
  moreover have "length t \<le> n'" using Cons.prems(3) n len by (simp split: if_splits)
  ultimately have "json_value n' (t @ ?rest) = Some ?rest"
    using vt by (intro value_textD)
  then have v: "json_value n' (tl ksep @ t @ ?rest) = Some ?rest"
    by (simp only: json_value_ksep [OF ksep])
  have c: "json_chars (concat (map escape_char k) @ CHR 0x22 # (CHR '':'' # tl ksep @ t @ ?rest)) =
      Some (CHR '':'' # tl ksep @ t @ ?rest)"
    by (rule json_chars_string)
  have "json_members (Suc n')
      (CHR 0x22 # concat (map escape_char k) @ CHR 0x22 # (CHR '':'' # tl ksep @ t @ ?rest)) = Some r"
  proof (cases "ms = []")
    case True
    with v c show ?thesis
      by (simp add: skip_ws_def is_ws_def del: json_value.simps)
  next
    case False
    have "length (join sep ms) < n'"
      using Cons.prems(3) n len tne False by (cases t) simp_all
    with Cons.IH [OF False, of n'] Cons.prems(2)
    have ih: "json_members n' (join sep ms @ CHR ''}'' # r) = Some r" by simp
    have "skip_ws (sep @ join sep ms @ CHR ''}'' # r) =
          CHR '','' # tl sep @ join sep ms @ CHR ''}'' # r"
      using sep by (auto simp: skip_ws_def is_ws_def)
    with v c False ih json_members_sep [OF sep, of n' "join sep ms @ CHR ''}'' # r"]
    show ?thesis
      by (simp add: skip_ws_start is_ws_def del: json_value.simps)
  qed
  then show ?case by (simp only: n jt)
qed

lemma value_text_object:
  assumes sep: "sep = '','' \<or> sep = '', ''" and ksep: "ksep = '':'' \<or> ksep = '': ''"
    and ms: "\<forall>m \<in> set ms. member_text ksep m"
  shows "value_text (''{'' @ join sep ms @ ''}'')"
  unfolding value_text_def
proof (intro conjI allI impI)
  show "''{'' @ join sep ms @ ''}'' \<noteq> []" by simp
  show "value_start (hd (''{'' @ join sep ms @ ''}''))" by (simp add: value_start_def)
next
  fix n r
  assume a: "length (''{'' @ join sep ms @ ''}'') \<le> n \<and> delim r"
  then obtain n' where n: "n = Suc n'" by (cases n) auto
  show "json_value n ((''{'' @ join sep ms @ ''}'') @ r) = Some r"
  proof (cases "ms = []")
    case True
    then show ?thesis by (simp add: n skip_ws_def is_ws_def)
  next
    case False
    then obtain m us where mu: "ms = m # us" by (cases ms) auto
    with ms obtain k t where m: "m = json_string k @ ksep @ t"
      by (auto simp: member_text_def)
    have lt: "length (join sep ms) < n'" using a n by simp
    from json_members_text [OF sep ksep False ms lt, of r]
    have e: "json_members n' (join sep ms @ CHR ''}'' # r) = Some r" .
    have j: "join sep ms @ CHR ''}'' # r =
        CHR 0x22 # (concat (map escape_char k) @ [CHR 0x22] @ ksep @ t
                    @ (if us = [] then [] else sep @ join sep us) @ CHR ''}'' # r)"
      by (simp add: mu m join_Cons json_string_def)
    have "skip_ws (join sep ms @ CHR ''}'' # r) = join sep ms @ CHR ''}'' # r"
      unfolding j by (rule skip_ws_start) (simp add: is_ws_def)
    with e j show ?thesis
      by (simp add: n skip_ws_def is_ws_def)
  qed
qed

lemma collect_Inr: "collect rs = Inr ts \<Longrightarrow> rs = map Inr ts"
proof (induction rs arbitrary: ts rule: collect.induct)
  case 1
  then show ?case by simp
next
  case (2 e rs)
  then show ?case by simp
next
  case (3 t rs)
  then show ?case by (cases "collect rs") auto
qed

lemma separators:
  assumes "seps = compact_separators \<or> seps = default_separators"
  shows "fst seps = '','' \<or> fst seps = '', ''" and "snd seps = '':'' \<or> snd seps = '': ''"
  using assms by (auto simp: compact_separators_def default_separators_def)

lemma json_float_finite: "\<not> is_nan f \<Longrightarrow> \<not> is_inf f \<Longrightarrow> json_float f = float_repr f"
  by (cases f) simp_all

lemma json_encode_value_text:
  "seps = compact_separators \<or> seps = default_separators \<Longrightarrow>
   finite_floats v \<Longrightarrow> json_encode seps v = Inr t \<Longrightarrow> value_text t"
proof (induction seps v arbitrary: t rule: json_encode.induct)
  case (1 seps)
  then show ?case by (auto simp: value_text_literal)
next
  case (2 seps b)
  then show ?case by (auto simp: value_text_literal)
next
  case (3 seps n)
  then show ?case by (auto simp: value_text_int)
next
  case (4 seps f)
  then have f: "\<not> is_nan f" "\<not> is_inf f" and "t = json_float f" by auto
  then have "t = float_repr f" by (simp add: json_float_finite)
  with f show ?case by (simp add: value_text_float)
next
  case (5 seps s)
  then show ?case by (auto simp: value_text_string)
next
  case (6 seps xs)
  from "6.prems"(3) obtain ts where c: "collect (map (json_encode seps) xs) = Inr ts"
    and t: "t = ''['' @ join (fst seps) ts @ '']''"
    by (auto split: sum.splits)
  from collect_Inr [OF c] have m: "map (json_encode seps) xs = map Inr ts" .
  have "value_text u" if "u \<in> set ts" for u
  proof -
    from that have "Inr u \<in> set (map (json_encode seps) xs)" by (simp add: m)
    then obtain x where "x \<in> set xs" and "json_encode seps x = Inr u" by auto
    with "6.IH" [of x u] "6.prems"(1,2) show ?thesis by simp
  qed
  then have "\<forall>u \<in> set ts. value_text u" by blast
  with separators(1) [OF "6.prems"(1)] show ?case
    unfolding t by (rule value_text_array)
next
  case (7 seps kvs)
  let ?f = "\<lambda>(k, v). case json_key k of
                 Inl e \<Rightarrow> Inl e
               | Inr ks \<Rightarrow>
                   (case json_encode seps v of
                      Inl e \<Rightarrow> Inl e
                    | Inr t \<Rightarrow> Inr (json_string ks @ snd seps @ t))"
  from "7.prems"(3) obtain ms where c: "collect (map ?f kvs) = Inr ms"
    and t: "t = ''{'' @ join (fst seps) ms @ ''}''"
    by (auto split: sum.splits)
  from collect_Inr [OF c] have m: "map ?f kvs = map Inr ms" .
  have "member_text (snd seps) u" if "u \<in> set ms" for u
  proof -
    from that have "Inr u \<in> set (map ?f kvs)" by (simp add: m)
    then obtain k v where kv: "(k, v) \<in> set kvs" and f: "?f (k, v) = Inr u" by auto
    from f obtain ks w where ks: "json_key k = Inr ks" and w: "json_encode seps v = Inr w"
      and u: "u = json_string ks @ snd seps @ w"
      by (auto split: sum.splits)
    from kv "7.prems"(2) have "finite_floats v" by auto
    with "7.IH" [OF kv refl ks, of w] "7.prems"(1) w have "value_text w" by simp
    with u show ?thesis by (auto simp: member_text_def)
  qed
  then have "\<forall>u \<in> set ms. member_text (snd seps) u" by blast
  with separators [OF "7.prems"(1)] show ?case
    unfolding t by (rule value_text_object)
qed simp_all

lemma value_text_valid: "value_text t \<Longrightarrow> json_valid t"
  using value_textD [of t "Suc (length t)" "[]"]
  by (simp add: json_valid_def delim_def del: json_value.simps)

lemma dict_set_values:
  "(k', v') \<in> set (dict_set d k v) \<Longrightarrow> (k', v') \<in> set d \<or> v' = v"
  by (induction d) (auto split: if_splits)

lemma dict_of_items_values:
  "(k', v') \<in> set (dict_of_items items d) \<Longrightarrow> (k', v') \<in> set d \<or> v' \<in> snd ` set items"
proof (induction items arbitrary: d)
  case Nil
  then show ?case by simp
next
  case (Cons i items)
  obtain k v where i: "i = (k, v)" by (cases i)
  from Cons.prems Cons.IH [of "dict_set d k v"]
  have "(k', v') \<in> set (dict_set d k v) \<or> v' \<in> snd ` set items" by (simp add: i)
  with dict_set_values [of k' v' d k v] show ?case by (auto simp: i)
qed

lemma sanitize_finite_floats: "finite_floats (sanitize v)"
proof (induction v rule: sanitize.induct)
  case (2 ty conv r)
  then show ?case by (cases conv) simp_all
next
  case (3 kvs)
  have "finite_floats v'"
    if "(k', v') \<in> set (dict_of_items (map (\<lambda>(k, v). (sanitize_key k, sanitize v)) kvs) [])"
    for k' v'
  proof -
    from dict_of_items_values [OF that]
    obtain k v where "(k, v) \<in> set kvs" and "v' = sanitize v" by auto
    with "3.IH" show ?thesis by auto
  qed
  then show ?case by auto
next
  case (6 ty vs r)
  then show ?case by (cases vs) simp_all
qed simp_all

lemma fallback_value_text:
  "value_text (''{'' @ json_string ''type'' @ '': '' @ json_string ''status'' @ '', '' @
        json_string ''msg'' @ '': '' @ json_string m @ ''}'')"
proof -
  have "json_encode default_separators
     (PDict [(KStr ''type'', PStr ''status''), (KStr ''msg'', PStr m)]) =
   Inr (''{'' @ json_string ''type'' @ '': '' @ json_string ''status'' @ '', '' @
        json_string ''msg'' @ '': '' @ json_string m @ ''}'')"
    by (rule fallback_encodes)
  then show ?thesis
    by (rule json_encode_value_text [rotated 2]) simp_all
qed

text \<open>
  C1. For every value, \<open>safe_json_dumps\<close> returns a string (no exception leaves it), and
  the string is a JSON text. When encoding the sanitized value raises \<open>e\<close>, the string is
  the JSON object with the members \<^verbatim>\<open>type\<close>, \<^verbatim>\<open>"status"\<close>, and \<^verbatim>\<open>msg\<close>,
  \<^verbatim>\<open>"serialization_error: e"\<close>. (In the model sanitizing itself raises nothing; the
  limits of the interpreter, such as its recursion depth, are not modelled.)
\<close>

theorem safe_json_dumps_valid:
  "\<exists>line. safe_json_dumps obj = Inr line \<and> json_valid line \<and>
     (\<forall>e. json_encode compact_separators (sanitize obj) = Inl e \<longrightarrow>
        line = ''{'' @ json_string ''type'' @ '': '' @ json_string ''status'' @ '', '' @
               json_string ''msg'' @ '': '' @
               json_string (''serialization_error: '' @ error_str e) @ ''}'')"
proof (cases "json_encode compact_separators (sanitize obj)")
  case (Inl e)
  let ?line = "''{'' @ json_string ''type'' @ '': '' @ json_string ''status'' @ '', '' @
               json_string ''msg'' @ '': '' @
               json_string (''serialization_error: '' @ error_str e) @ ''}''"
  have "safe_json_dumps obj = Inr ?line"
    by (simp only: safe_json_dumps_def Inl sum.case fallback_encodes)
  moreover have "json_valid ?line"
    by (intro value_text_valid fallback_value_text)
  ultimately show ?thesis
    using Inl by simp
next
  case (Inr line)
  have "value_text line"
    using _ sanitize_finite_floats Inr by (rule json_encode_value_text) simp
  with Inr show ?thesis
    by (simp add: safe_json_dumps_def value_text_valid)
qed


theorem safe_json_dumps_valid_witness:
  "json_encode compact_separators (sanitize (PList [PInt 1, POpaque ''complex''])) =
     Inl (TypeError ''Object of type complex is not JSON serializable'') \<and>
   safe_json_dumps (PList [PInt 1, POpaque ''complex'']) =
     Inr (''{'' @ json_string ''type'' @ '': '' @ json_string ''status'' @ '', '' @
          json_string ''msg'' @ '': '' @
          json_string ''serialization_error: Object of type complex is not JSON serializable'' @
          ''}'') \<and>
   json_valid (''{'' @ json_string ''type'' @ '': '' @ json_string ''status'' @ '', '' @
          json_string ''msg'' @ '': '' @
          json_string ''serialization_error: Object of type complex is not JSON serializable'' @
          ''}'')"
proof -
  have h: "json_encode compact_separators (sanitize (PList [PInt 1, POpaque ''complex''])) =
     Inl (TypeError ''Object of type complex is not JSON serializable'')"
    by (simp add: not_serializable_def)
  from safe_json_dumps_valid [of "PList [PInt 1, POpaque ''complex'']"]
  obtain line where l: "safe_json_dumps (PList [PInt 1, POpaque ''complex'']) = Inr line"
    "json_valid line"
    "\<forall>e. json_encode compact_separators (sanitize (PList [PInt 1, POpaque ''complex''])) = Inl e \<longrightarrow>
        line = ''{'' @ json_string ''type'' @ '': '' @ json_string ''status'' @ '', '' @
               json_string ''msg'' @ '': '' @
               json_string (''serialization_error: '' @ error_str e) @ ''}''"
    by (elim exE conjE)
  from l(3) h have "line = ''{'' @ json_string ''type'' @ '': '' @ json_string ''status'' @ '', '' @
          json_string ''msg'' @ '': '' @
          json_string ''serialization_error: Object of type complex is not JSON serializable'' @
          ''}''"
    by simp
  with l(1,2) h show ?thesis by simp
qed

lemma json_valid_rejects_nan:
  "json_encode compact_separators (PList [PFloat NaN]) = Inr ''[NaN]'' \<and> \<not> json_valid ''[NaN]''"
  by code_simp

section \<open>Status lines: properties\<close>

lemma collect_all_Inr: "\<forall>r \<in> set rs. \<exists>t. r = Inr t \<Longrightarrow> \<exists>ts. collect rs = Inr ts"
proof (induction rs)
  case Nil
  show ?case by simp
next
  case (Cons r rs)
  then obtain t ts where "r = Inr t" and "collect rs = Inr ts" by auto
  then show ?case by simp
qed

lemma encodes_list:
  "\<forall>x \<in> set xs. \<exists>t. json_encode seps x = Inr t \<Longrightarrow> \<exists>t. json_encode seps (PList xs) = Inr t"
proof -
  assume "\<forall>x \<in> set xs. \<exists>t. json_encode seps x = Inr t"
  then have "\<forall>r \<in> set (map (json_encode seps) xs). \<exists>t. r = Inr t" by auto
  from collect_all_Inr [OF this] show ?thesis by auto
qed

lemma encodes_dict:
  assumes "\<forall>(k, v) \<in> set d. (\<exists>s. k = KStr s) \<and> (\<exists>t. json_encode seps v = Inr t)"
  shows "\<exists>t. json_encode seps (PDict d) = Inr t"
proof -
  let ?f = "\<lambda>(k, v). case json_key k of
                 Inl e \<Rightarrow> Inl e
               | Inr ks \<Rightarrow>
                   (case json_encode seps v of
                      Inl e \<Rightarrow> Inl e
                    | Inr t \<Rightarrow> Inr (json_string ks @ snd seps @ t))"
  have "\<exists>t. ?f kv = Inr t" if "kv \<in> set d" for kv
  proof -
    obtain k v where kv: "kv = (k, v)" by (cases kv)
    with that assms obtain s t where "k = KStr s" and "json_encode seps v = Inr t" by auto
    then show ?thesis by (simp add: kv)
  qed
  then have "\<forall>r \<in> set (map ?f d). \<exists>t. r = Inr t" by auto
  from collect_all_Inr [OF this] show ?thesis by auto
qed

lemma dict_set_items:
  "(k', v') \<in> set (dict_set d k v) \<Longrightarrow> (k', v') \<in> set d \<or> (k' = KStr k \<and> v' = v)"
  by (induction d) (auto split: if_splits)

lemma dict_of_items_items:
  "(k', v') \<in> set (dict_of_items items d) \<Longrightarrow>
   (k', v') \<in> set d \<or> (\<exists>k. k' = KStr k \<and> (k, v') \<in> set items)"
proof (induction items arbitrary: d)
  case Nil
  then show ?case by simp
next
  case (Cons i items)
  obtain k v where i: "i = (k, v)" by (cases i)
  from Cons.prems Cons.IH [of "dict_set d k v"]
  have "(k', v') \<in> set (dict_set d k v) \<or> (\<exists>k. k' = KStr k \<and> (k, v') \<in> set items)"
    by (simp add: i)
  with dict_set_items [of k' v' d k v] show ?case by (auto simp: i)
qed

lemma serializable_encodes:
  "serializable v \<Longrightarrow> \<exists>t. json_encode seps (sanitize v) = Inr t"
proof (induction v rule: sanitize.induct)
  case (2 ty conv r)
  then show ?case by (cases conv) simp_all
next
  case (3 kvs)
  let ?d = "dict_of_items (map (\<lambda>(k, v). (sanitize_key k, sanitize v)) kvs) []"
  have "(\<exists>s. k' = KStr s) \<and> (\<exists>t. json_encode seps v' = Inr t)" if "(k', v') \<in> set ?d" for k' v'
  proof -
    from dict_of_items_items [OF that]
    obtain s k v where "k' = KStr s" and kv: "(k, v) \<in> set kvs" and v': "v' = sanitize v" by auto
    moreover from kv "3.prems" have "serializable v" by auto
    with "3.IH" [OF kv refl] v' have "\<exists>t. json_encode seps v' = Inr t" by simp
    ultimately show ?thesis by simp
  qed
  then have "\<forall>(k, v) \<in> set ?d. (\<exists>s. k = KStr s) \<and> (\<exists>t. json_encode seps v = Inr t)" by auto
  from encodes_dict [OF this] show ?case by simp
next
  case (4 xs)
  then have "\<forall>x \<in> set (map sanitize xs). \<exists>t. json_encode seps x = Inr t" by auto
  from encodes_list [OF this] show ?case by simp
next
  case (6 ty vs r)
  then show ?case by (cases vs) simp_all
qed simp_all

lemma by_channel_dict_encodes:
  "\<exists>bc. json_encode compact_separators (sanitize (by_channel_dict b)) = Inr bc"
proof (rule serializable_encodes)
  show "serializable (by_channel_dict b)"
    by (auto simp: by_channel_dict_def)
qed

lemma connected_line:
  "safe_json_dumps (status_connected host) =
   Inr (json_object [(''type'', json_string ''status''), (''msg'', json_string ''connected''),
                     (''host'', json_string host)])"
  by (simp add: safe_json_dumps_def status_connected_def compact_separators_def json_object_def)

lemma stats_line:
  assumes "json_encode compact_separators (sanitize d) = Inr bc"
  shows "safe_json_dumps
           (PDict [(KStr ''type'', PStr ''status''), (KStr ''msg'', PStr m),
                   (KStr ''host'', PStr host),
                   (KStr ''stats'', PDict [(KStr ''total'', PInt n), (KStr ''by_channel'', d)])]) =
         Inr (json_object [(''type'', json_string ''status''), (''msg'', json_string m),
                (''host'', json_string host),
                (''stats'', json_object [(''total'', int_repr n), (''by_channel'', bc)])])"
  using assms
  by (simp add: safe_json_dumps_def compact_separators_def json_object_def)

text \<open>
  C7, as the code has it. The lines of kind \<^verbatim>\<open>status\<close> that announce the connection, a
  heartbeat or a priming carry the member \<^verbatim>\<open>host\<close>, a string; the heartbeat and priming
  lines also carry \<^verbatim>\<open>stats\<close>, an object with the members \<^verbatim>\<open>total\<close> and
  \<^verbatim>\<open>by_channel\<close>, which the connected line does not have. The two error lines carry
  \<^verbatim>\<open>type\<close> and \<^verbatim>\<open>msg\<close> and nothing else: neither \<^verbatim>\<open>host\<close> nor \<^verbatim>\<open>stats\<close>.
\<close>

theorem status_lines_members:
  "safe_json_dumps (status_connected host) =
     Inr (json_object [(''type'', json_string ''status''), (''msg'', json_string ''connected''),
                       (''host'', json_string host)]) \<and>
   (\<exists>bc. json_encode compact_separators (sanitize (by_channel_dict b)) = Inr bc \<and>
      safe_json_dumps (status_heartbeat host (get_stats b)) =
        Inr (json_object
               [(''type'', json_string ''status''), (''msg'', json_string ''heartbeat''),
                (''host'', json_string host),
                (''stats'', json_object [(''total'', int_repr (total_packets b)),
                                         (''by_channel'', bc)])]) \<and>
      safe_json_dumps (status_priming host (get_stats b)) =
        Inr (json_object
               [(''type'', json_string ''status''), (''msg'', json_string ''priming''),
                (''host'', json_string host),
                (''stats'', json_object [(''total'', int_repr (total_packets b)),
                                         (''by_channel'', bc)])])) \<and>
   safe_json_dumps (status_connect_error e) =
     Inr (json_object [(''type'', json_string ''status''),
                       (''msg'', json_string (''connect_error: '' @ error_str e))]) \<and>
   safe_json_dumps (status_unexpected_error e) =
     Inr (json_object [(''type'', json_string ''status''),
                       (''msg'', json_string (''unexpected_error: '' @ error_str e))])"
proof -
  obtain bc where bc: "json_encode compact_separators (sanitize (by_channel_dict b)) = Inr bc"
    using by_channel_dict_encodes by blast
  from stats_line [OF bc]
  have "safe_json_dumps (status_heartbeat host (get_stats b)) =
        Inr (json_object
               [(''type'', json_string ''status''), (''msg'', json_string ''heartbeat''),
                (''host'', json_string host),
                (''stats'', json_object [(''total'', int_repr (total_packets b)),
                                         (''by_channel'', bc)])])"
    and "safe_json_dumps (status_priming host (get_stats b)) =
        Inr (json_object
               [(''type'', json_string ''status''), (''msg'', json_string ''priming''),
                (''host'', json_string host),
                (''stats'', json_object [(''total'', int_repr (total_packets b)),
                                         (''by_channel'', bc)])])"
    by (simp_all only: status_heartbeat_def status_priming_def get_stats_def)
  with bc connected_line [of host] error_line show ?thesis
    by (simp only: status_connect_error_def status_unexpected_error_def) blast
qed

theorem status_lines_members_witness:
  "safe_json_dumps (status_heartbeat ''node'' (get_stats init_broker)) =
     Inr (json_object
            [(''type'', json_string ''status''), (''msg'', json_string ''heartbeat''),
             (''host'', json_string ''node''),
             (''stats'', json_object [(''total'', ''0''), (''by_channel'', ''{}'')])]) \<and>
   safe_json_dumps (status_connect_error (MeshInterfaceError ''timed out'')) =
     Inr (json_object [(''type'', json_string ''status''),
                       (''msg'', json_string ''connect_error: timed out'')])"
proof -
  from status_lines_members [of "''node''" init_broker "MeshInterfaceError ''timed out''"]
  obtain bc where bc: "json_encode compact_separators (sanitize (by_channel_dict init_broker)) = Inr bc"
    and hb: "safe_json_dumps (status_heartbeat ''node'' (get_stats init_broker)) =
        Inr (json_object
               [(''type'', json_string ''status''), (''msg'', json_string ''heartbeat''),
                (''host'', json_string ''node''),
                (''stats'', json_object [(''total'', int_repr (total_packets init_broker)),
                                         (''by_channel'', bc)])])"
    and ce: "safe_json_dumps (status_connect_error (MeshInterfaceError ''timed out'')) =
     Inr (json_object [(''type'', json_string ''status''),
            (''msg'', json_string (''connect_error: '' @ error_str (MeshInterfaceError ''timed out'')))])"
    by (elim exE conjE)
  from bc have "bc = ''{}''"
    by (simp add: by_channel_dict_def init_broker_def)
  moreover have "int_repr (total_packets init_broker) = ''0''"
    by (simp add: init_broker_def int_repr_def digits_nat_zero)
  ultimately show ?thesis using hb ce by simp
qed

text \<open>
  C7 in the specification's wording fails on a turn in which the connection attempt
  raises: the line sent to the clients has no \<^verbatim>\<open>host\<close> member.
\<close>

theorem status_error_line_has_no_host:
  "connect_interface_iteration ''node'' failing_turn 0 one_client =
     Inr (0, one_client\<lparr>trace :=
          [SendAll 1 (json_object [(''type'', json_string ''status''),
                                   (''msg'', json_string ''connect_error: timed out'')]
                      @ [CHR 0x0A]),
           Sleep 3]\<rparr>) \<and>
   spec_resolve (error_status (MeshInterfaceError ''timed out'')) [''host''] = None"
proof -
  have h: "loop_try ''node'' failing_turn 0 one_client =
      (Some (MeshInterfaceError ''timed out''), 0, one_client)"
    by (simp add: loop_try_def open_interface_def one_client_def init_broker_def
          failing_turn_def)
  from iteration_raised [OF h error_status_line]
  have "connect_interface_iteration ''node'' failing_turn 0 one_client =
     Inr (0, one_client\<lparr>trace :=
          [SendAll 1 (json_object [(''type'', json_string ''status''),
                                   (''msg'', json_string ''connect_error: timed out'')]
                      @ [CHR 0x0A]),
           Sleep 3]\<rparr>)"
    by (simp add: one_client_def init_broker_def send_fails_def rstrip_newline_def
          json_object_def json_string_def escape_char_def)
  moreover have "spec_resolve (error_status (MeshInterfaceError ''timed out'')) [''host''] = None"
    by (simp add: error_status_def status_connect_error_def)
  ultimately show ?thesis by blast
qed

end
